theory Spec2Isabelle
  imports Main "HOL-Library.Word"
begin

unbundle bit_operations_syntax

section \<open>Python data\<close>

text \<open>
  The handler of \<^verbatim>\<open>src/procdoc_lambda.py\<close> is dynamically typed Python. A Python
  \<^verbatim>\<open>str\<close> is a sequence of Unicode code points, a \<^verbatim>\<open>bytes\<close> object a sequence of
  octets. Values that come out of \<^verbatim>\<open>json.loads\<close> or out of a service client are Python
  objects built from \<^verbatim>\<open>None\<close>, booleans, numbers, strings, lists and dictionaries with
  string keys. A dictionary keeps its keys in insertion order, so it is an association
  list; a float is carried as the literal it was read from, since the handler never
  computes with one.
\<close>

type_synonym str = "nat list"

type_synonym bytes = "8 word list"

definition ascii :: "string \<Rightarrow> str" where
  "ascii s = map of_char s"

datatype pyval =
    PNone
  | PBool bool
  | PInt int
  | PFloat str
  | PStr str
  | PList "pyval list"
  | PDict "(str \<times> pyval) list"

text \<open>
  The exceptions the modelled operations raise; all of them are subclasses of Python's
  \<^verbatim>\<open>Exception\<close>. \<open>ServiceException\<close> stands for whatever exception a service client
  raises (a \<^verbatim>\<open>botocore\<close> error, a transport error); its argument identifies it.
  \<open>UnicodeEncodeError\<close> is what writing a string to a stream raises when the stream's encoding
  has no bytes for one of its characters.
\<close>

datatype exn =
    TypeError
  | ValueError
  | AttributeError
  | IndexError
  | KeyError
  | BinasciiError
  | JSONDecodeError
  | UnicodeEncodeError
  | ServiceException str

section \<open>String methods\<close>

text \<open>
  \<^verbatim>\<open>str.isspace\<close> for one code point: the characters \<^verbatim>\<open>str.strip()\<close> removes when it is
  called without an argument (bidirectional type WS, B or S, or category Zs).
\<close>

definition isspace :: "nat \<Rightarrow> bool" where
  "isspace c =
     ((9 \<le> c \<and> c \<le> 13) \<or> (28 \<le> c \<and> c \<le> 32) \<or> c = 133 \<or> c = 160 \<or> c = 5760 \<or>
      (8192 \<le> c \<and> c \<le> 8202) \<or> c = 8232 \<or> c = 8233 \<or> c = 8239 \<or> c = 8287 \<or>
      c = 12288)"

definition strip :: "str \<Rightarrow> str" where
  "strip s = rev (dropWhile isspace (rev (dropWhile isspace s)))"

text \<open>\<^verbatim>\<open>s.split('\n')\<close>: the pieces between the newlines, empty pieces kept.\<close>

function split_nl :: "str \<Rightarrow> str list" where
  "split_nl s =
     takeWhile (\<lambda>c. c \<noteq> 10) s #
     (case dropWhile (\<lambda>c. c \<noteq> 10) s of
        [] \<Rightarrow> []
      | newline # rest \<Rightarrow> split_nl rest)"
  by pat_completeness auto
termination
proof (relation "measure length")
  fix s :: str and newline rest
  assume "dropWhile (\<lambda>c. c \<noteq> 10) s = newline # rest"
  then have "Suc (length rest) = length (dropWhile (\<lambda>c. c \<noteq> 10) s)" by simp
  also have "\<dots> \<le> length s" by (rule length_dropWhile_le)
  finally show "(rest, s) \<in> measure length" by simp
qed simp

declare split_nl.simps [simp del]

text \<open>\<^verbatim>\<open>"\n".join(lines)\<close> for a list of strings.\<close>

fun join_nl :: "str list \<Rightarrow> str" where
  "join_nl [] = []"
| "join_nl [l] = l"
| "join_nl (l # m # ls) = l @ 10 # join_nl (m # ls)"

section \<open>Summary normalisation (lines 46 to 51)\<close>

text \<open>
  \<^verbatim>\<open>summary_lines = [line.strip() for line in summary_text.strip().split('\n') if line.strip()]\<close>
  followed by the truncation to three lines or the padding with empty strings.
\<close>

definition summary_lines :: "str \<Rightarrow> str list" where
  "summary_lines summary_text =
     (let lines = map strip (filter (\<lambda>line. strip line \<noteq> []) (split_nl (strip summary_text)))
      in if length lines > 3 then take 3 lines
         else if length lines < 3 then lines @ replicate (3 - length lines) []
         else lines)"

text \<open>
  The normalisation as section 4.3 of the specification words it, step by step: strip
  the text, split on newlines, strip every line, drop the empty lines, keep the first
  three, append empty strings until there are three.
\<close>

function pad_until_3 :: "str list \<Rightarrow> str list" where
  "pad_until_3 ls = (if length ls < 3 then pad_until_3 (ls @ [[]]) else ls)"
  by pat_completeness auto
termination
  by (relation "measure (\<lambda>ls. 3 - length ls)") auto

declare pad_until_3.simps [simp del]

definition spec_normalize :: "str \<Rightarrow> str list" where
  "spec_normalize generated =
     (let stripped = strip generated;
          pieces = split_nl stripped;
          stripped_pieces = map strip pieces;
          kept = filter (\<lambda>l. l \<noteq> []) stripped_pieces;
          first3 = (if length kept > 3 then take 3 kept else kept)
      in pad_until_3 first3)"

section \<open>\<^verbatim>\<open>base64.b64decode\<close>\<close>

text \<open>
  The handler calls \<^verbatim>\<open>base64.b64decode(s)\<close> with the default \<^verbatim>\<open>validate=False\<close>. For a
  \<^verbatim>\<open>str\<close> argument the library first encodes it as ASCII (a \<^verbatim>\<open>ValueError\<close> when a
  character is outside ASCII), for an argument that is neither a string nor bytes-like it
  raises \<^verbatim>\<open>TypeError\<close>, and then \<^verbatim>\<open>binascii.a2b_base64\<close> runs in its non-strict mode
  (CPython 3.11 and later): characters outside the alphabet are skipped, a pad character
  ends the input once the current quad is complete, and input that ends inside a quad
  raises \<^verbatim>\<open>binascii.Error\<close>.
\<close>

definition table_a2b_base64 :: "nat \<Rightarrow> 8 word option" where
  "table_a2b_base64 c =
     (if 65 \<le> c \<and> c \<le> 90 then Some (of_nat (c - 65))
      else if 97 \<le> c \<and> c \<le> 122 then Some (of_nat (c - 71))
      else if 48 \<le> c \<and> c \<le> 57 then Some (of_nat (c + 4))
      else if c = 43 then Some 62
      else if c = 47 then Some 63
      else None)"

text \<open>
  The loop of \<^verbatim>\<open>a2b_base64\<close> over the input, with its local variables \<open>quad_pos\<close>,
  \<open>leftchar\<close> and \<open>pads\<close> and the output written so far. Code point 61 is the pad
  character \<^verbatim>\<open>=\<close>; reaching the label \<^verbatim>\<open>done\<close> returns the output.
\<close>

fun a2b_base64 :: "str \<Rightarrow> nat \<Rightarrow> 8 word \<Rightarrow> nat \<Rightarrow> bytes \<Rightarrow> exn + bytes" where
  "a2b_base64 [] quad_pos leftchar pads bin_data =
     (if quad_pos \<noteq> 0 then Inl BinasciiError else Inr bin_data)"
| "a2b_base64 (this_ch # rest) quad_pos leftchar pads bin_data =
     (if this_ch = 61 then
        (if quad_pos \<ge> 2 \<and> quad_pos + (pads + 1) \<ge> 4 then Inr bin_data
         else a2b_base64 rest quad_pos leftchar (if quad_pos \<ge> 2 then pads + 1 else pads) bin_data)
      else
        (case table_a2b_base64 this_ch of
           None \<Rightarrow> a2b_base64 rest quad_pos leftchar pads bin_data
         | Some v \<Rightarrow>
             if quad_pos = 0 then a2b_base64 rest 1 v 0 bin_data
             else if quad_pos = 1 then
               a2b_base64 rest 2 (v AND 15) 0 (bin_data @ [push_bit 2 leftchar OR drop_bit 4 v])
             else if quad_pos = 2 then
               a2b_base64 rest 3 (v AND 3) 0 (bin_data @ [push_bit 4 leftchar OR drop_bit 2 v])
             else
               a2b_base64 rest 0 0 0 (bin_data @ [push_bit 6 leftchar OR v])))"

definition b64decode :: "pyval \<Rightarrow> exn + bytes" where
  "b64decode s =
     (case s of
        PStr t \<Rightarrow> if list_ex (\<lambda>c. c \<ge> 128) t then Inl ValueError else a2b_base64 t 0 0 0 []
      | _ \<Rightarrow> Inl TypeError)"

text \<open>
  The encoding the specification calls base64(X): RFC 4648 with padding, the output of
  \<^verbatim>\<open>base64.b64encode\<close>. The handler never encodes; the encoder is what the round trip
  of the specification is stated against.
\<close>

definition b64char :: "8 word \<Rightarrow> nat" where
  "b64char v =
     (let n = unat v in
      if n < 26 then 65 + n else if n < 52 then 71 + n else if n < 62 then n - 4
      else if n = 62 then 43 else 47)"

definition sextet0 :: "8 word \<Rightarrow> 8 word" where
  "sextet0 a = drop_bit 2 a"

definition sextet1 :: "8 word \<Rightarrow> 8 word \<Rightarrow> 8 word" where
  "sextet1 a b = push_bit 4 (a AND 3) OR drop_bit 4 b"

definition sextet2 :: "8 word \<Rightarrow> 8 word \<Rightarrow> 8 word" where
  "sextet2 b c = push_bit 2 (b AND 15) OR drop_bit 6 c"

definition sextet3 :: "8 word \<Rightarrow> 8 word" where
  "sextet3 c = c AND 63"

fun b64encode :: "bytes \<Rightarrow> str" where
  "b64encode [] = []"
| "b64encode [a] = [b64char (sextet0 a), b64char (sextet1 a 0), 61, 61]"
| "b64encode [a, b] =
     [b64char (sextet0 a), b64char (sextet1 a b), b64char (sextet2 b 0), 61]"
| "b64encode (a # b # c # rest) =
     [b64char (sextet0 a), b64char (sextet1 a b), b64char (sextet2 b c), b64char (sextet3 c)]
     @ b64encode rest"

section \<open>\<^verbatim>\<open>json.loads\<close>\<close>

text \<open>
  The decoder of the standard library as its C scanner implements it, for a \<^verbatim>\<open>str\<close>
  argument and the default options (\<^verbatim>\<open>strict=True\<close>, no hooks). Every syntax error is a
  \<^verbatim>\<open>JSONDecodeError\<close>; an integer literal of more than 4300 digits is a \<^verbatim>\<open>ValueError\<close>
  (the interpreter's default limit on integer string conversion). The interpreter's
  recursion limit on deeply nested documents is not part of the model.
\<close>

definition is_json_ws :: "nat \<Rightarrow> bool" where
  "is_json_ws c = (c = 32 \<or> c = 9 \<or> c = 10 \<or> c = 13)"

definition skip_ws :: "str \<Rightarrow> str" where
  "skip_ws s = dropWhile is_json_ws s"

definition is_digit :: "nat \<Rightarrow> bool" where
  "is_digit c = (48 \<le> c \<and> c \<le> 57)"

definition starts_with :: "str \<Rightarrow> str \<Rightarrow> bool" where
  "starts_with p s = (take (length p) s = p)"

subsection \<open>Strings\<close>

definition hex_digit :: "nat \<Rightarrow> nat option" where
  "hex_digit c =
     (if 48 \<le> c \<and> c \<le> 57 then Some (c - 48)
      else if 97 \<le> c \<and> c \<le> 102 then Some (c - 87)
      else if 65 \<le> c \<and> c \<le> 70 then Some (c - 55)
      else None)"

fun hex4 :: "str \<Rightarrow> nat option" where
  "hex4 [a, b, c, d] =
     (case (hex_digit a, hex_digit b, hex_digit c, hex_digit d) of
        (Some x, Some y, Some z, Some w) \<Rightarrow> Some (((x * 16 + y) * 16 + z) * 16 + w)
      | _ \<Rightarrow> None)"
| "hex4 _ = None"

text \<open>The one-character escapes: quote, backslash, slash, b, f, n, r, t.\<close>

definition unescape :: "nat \<Rightarrow> nat option" where
  "unescape c =
     (if c = 34 \<or> c = 92 \<or> c = 47 then Some c
      else if c = 98 then Some 8
      else if c = 102 then Some 12
      else if c = 110 then Some 10
      else if c = 114 then Some 13
      else if c = 116 then Some 9
      else None)"

text \<open>
  The escape after a backslash: the decoded code point and the rest of the input. A
  \<^verbatim>\<open>\u\<close> escape needs its four hexadecimal digits and one more character after them; a high
  surrogate followed by an escaped low surrogate is joined into one code point.
\<close>

definition scan_escape :: "str \<Rightarrow> exn + (nat \<times> str)" where
  "scan_escape cs =
     (case cs of
        [] \<Rightarrow> Inl JSONDecodeError
      | e # es \<Rightarrow>
          if e \<noteq> 117 then
            (case unescape e of
               None \<Rightarrow> Inl JSONDecodeError
             | Some ch \<Rightarrow> Inr (ch, es))
          else if length es \<le> 4 then Inl JSONDecodeError
          else
            (case hex4 (take 4 es) of
               None \<Rightarrow> Inl JSONDecodeError
             | Some u \<Rightarrow>
                 let r = drop 4 es in
                 if 55296 \<le> u \<and> u \<le> 56319 \<and> length r > 6 \<and> take 2 r = [92, 117] then
                   (case hex4 (take 4 (drop 2 r)) of
                      None \<Rightarrow> Inl JSONDecodeError
                    | Some u2 \<Rightarrow>
                        if 56320 \<le> u2 \<and> u2 \<le> 57343
                        then Inr (65536 + ((u - 55296) * 1024 + (u2 - 56320)), drop 6 r)
                        else Inr (u, r))
                 else Inr (u, r)))"

lemma scan_escape_shorter: "scan_escape cs = Inr (ch, r) \<Longrightarrow> length r < length cs"
  unfolding scan_escape_def
  by (cases cs) (auto split: if_splits option.splits simp: Let_def)

text \<open>
  \<^verbatim>\<open>scanstring\<close>, started after the opening quote: the string's value and the input after
  the closing quote. A control character inside the string is an error in strict mode.
\<close>

function scanstring :: "str \<Rightarrow> str \<Rightarrow> exn + (str \<times> str)" where
  "scanstring [] acc = Inl JSONDecodeError"
| "scanstring (c # cs) acc =
     (if c = 34 then Inr (rev acc, cs)
      else if c = 92 then
        (case scan_escape cs of
           Inl e \<Rightarrow> Inl e
         | Inr (ch, r) \<Rightarrow> scanstring r (ch # acc))
      else if c \<le> 31 then Inl JSONDecodeError
      else scanstring cs (c # acc))"
  by pat_completeness auto
termination
  by (relation "measure (\<lambda>(s, acc). length s)") (auto dest: scan_escape_shorter)

subsection \<open>Numbers\<close>

definition INT_MAX_STR_DIGITS :: nat where
  "INT_MAX_STR_DIGITS = 4300"

definition int_of_digits :: "str \<Rightarrow> int" where
  "int_of_digits ds = foldl (\<lambda>n d. 10 * n + int (d - 48)) 0 ds"

definition int_part :: "str \<Rightarrow> str" where
  "int_part s = (if s \<noteq> [] \<and> hd s = 48 then [48] else takeWhile is_digit s)"

definition frac_part :: "str \<Rightarrow> str" where
  "frac_part r =
     (case r of
        d # f # _ \<Rightarrow> if d = 46 \<and> is_digit f then 46 # takeWhile is_digit (tl r) else []
      | _ \<Rightarrow> [])"

definition exp_part :: "str \<Rightarrow> str" where
  "exp_part r =
     (case r of
        e # r' \<Rightarrow>
          if e = 101 \<or> e = 69 then
            (let sign = (case r' of g # _ \<Rightarrow> if g = 45 \<or> g = 43 then [g] else [] | [] \<Rightarrow> []);
                 ds = takeWhile is_digit (drop (length sign) r')
             in if ds = [] then [] else e # sign @ ds)
          else []
      | [] \<Rightarrow> [])"

text \<open>
  \<^verbatim>\<open>_match_number_unicode\<close>: an optional minus sign, the integer digits (a leading zero
  stands alone), an optional fraction and an optional exponent, each taken only when a
  digit follows. With a fraction or an exponent the literal is a float, otherwise an int.
\<close>

definition match_number :: "str \<Rightarrow> exn + (pyval \<times> str)" where
  "match_number s =
     (let sign = (if s \<noteq> [] \<and> hd s = 45 then [45] else []);
          s1 = drop (length sign) s;
          digits = int_part s1;
          r1 = drop (length digits) s1;
          frac = frac_part r1;
          r2 = drop (length frac) r1;
          expo = exp_part r2;
          r3 = drop (length expo) r2
      in if digits = [] then Inl JSONDecodeError
         else if frac \<noteq> [] \<or> expo \<noteq> [] then Inr (PFloat (sign @ digits @ frac @ expo), r3)
         else if length digits > INT_MAX_STR_DIGITS then Inl ValueError
         else Inr (PInt (if sign = [] then int_of_digits digits else - int_of_digits digits), r3))"

subsection \<open>Values\<close>

text \<open>
  \<^verbatim>\<open>d[key] = value\<close> on a dictionary: a key that is present keeps its place and takes the
  new value, a new key goes to the end.
\<close>

fun dict_set :: "str \<Rightarrow> pyval \<Rightarrow> (str \<times> pyval) list \<Rightarrow> (str \<times> pyval) list" where
  "dict_set k v [] = [(k, v)]"
| "dict_set k v ((k', v') # d) = (if k' = k then (k, v) # d else (k', v') # dict_set k v d)"

text \<open>
  \<^verbatim>\<open>scan_once\<close> reads one JSON value at the head of the input; \<open>array_loop\<close> and
  \<open>object_loop\<close> are the loops of \<^verbatim>\<open>_parse_array_unicode\<close> and \<^verbatim>\<open>_parse_object_unicode\<close>
  over the elements after the opening bracket of a non-empty array or object.
\<close>

function (sequential) scan_once :: "str \<Rightarrow> exn + (pyval \<times> str)"
  and array_loop :: "str \<Rightarrow> pyval list \<Rightarrow> exn + (pyval \<times> str)"
  and object_loop :: "str \<Rightarrow> (str \<times> pyval) list \<Rightarrow> exn + (pyval \<times> str)"
where
  "scan_once [] = Inl JSONDecodeError"
| "scan_once (c # cs) =
     (if c = 34 then
        (case scanstring cs [] of Inl e \<Rightarrow> Inl e | Inr (s, r) \<Rightarrow> Inr (PStr s, r))
      else if c = 123 then
        (let s1 = skip_ws cs in
         if s1 \<noteq> [] \<and> hd s1 = 125 then Inr (PDict [], tl s1) else object_loop s1 [])
      else if c = 91 then
        (let s1 = skip_ws cs in
         if s1 \<noteq> [] \<and> hd s1 = 93 then Inr (PList [], tl s1) else array_loop s1 [])
      else if starts_with (ascii ''null'') (c # cs) then Inr (PNone, drop 4 (c # cs))
      else if starts_with (ascii ''true'') (c # cs) then Inr (PBool True, drop 4 (c # cs))
      else if starts_with (ascii ''false'') (c # cs) then Inr (PBool False, drop 5 (c # cs))
      else if starts_with (ascii ''NaN'') (c # cs) then Inr (PFloat (ascii ''NaN''), drop 3 (c # cs))
      else if starts_with (ascii ''Infinity'') (c # cs)
        then Inr (PFloat (ascii ''Infinity''), drop 8 (c # cs))
      else if starts_with (ascii ''-Infinity'') (c # cs)
        then Inr (PFloat (ascii ''-Infinity''), drop 9 (c # cs))
      else match_number (c # cs))"
| "array_loop s acc =
     (case scan_once s of
        Inl e \<Rightarrow> Inl e
      | Inr (v, r) \<Rightarrow>
          let r1 = skip_ws r in
          if r1 \<noteq> [] \<and> hd r1 = 93 then Inr (PList (acc @ [v]), tl r1)
          else if r1 = [] \<or> hd r1 \<noteq> 44 then Inl JSONDecodeError
          else array_loop (skip_ws (tl r1)) (acc @ [v]))"
| "object_loop s d =
     (if s = [] \<or> hd s \<noteq> 34 then Inl JSONDecodeError
      else
        (case scanstring (tl s) [] of
           Inl e \<Rightarrow> Inl e
         | Inr (key, r) \<Rightarrow>
             let r1 = skip_ws r in
             if r1 = [] \<or> hd r1 \<noteq> 58 then Inl JSONDecodeError
             else
               (case scan_once (skip_ws (tl r1)) of
                  Inl e \<Rightarrow> Inl e
                | Inr (v, r3) \<Rightarrow>
                    let r4 = skip_ws r3 in
                    if r4 \<noteq> [] \<and> hd r4 = 125 then Inr (PDict (dict_set key v d), tl r4)
                    else if r4 = [] \<or> hd r4 \<noteq> 44 then Inl JSONDecodeError
                    else object_loop (skip_ws (tl r4)) (dict_set key v d))))"
  by pat_completeness auto

text \<open>
  Termination: every value that is read consumes at least one character, so each loop
  continues on a shorter input.
\<close>

lemma scanstring_shorter:
  "scanstring s acc = Inr (k, r) \<Longrightarrow> length r < length s"
proof (induction s acc rule: scanstring.induct)
  case (1 acc)
  then show ?case by simp
next
  case (2 c cs acc)
  show ?case
  proof (cases "c = 34")
    case True
    with 2 show ?thesis by simp
  next
    case n34: False
    show ?thesis
    proof (cases "c = 92")
      case True
      from 2(3) n34 True obtain ch r' where
        e: "scan_escape cs = Inr (ch, r')" and s: "scanstring r' (ch # acc) = Inr (k, r)"
        by (auto split: sum.splits)
      from 2(1)[OF n34 True e refl s] scan_escape_shorter[OF e] show ?thesis by simp
    next
      case False
      with 2 n34 show ?thesis
        by (auto split: if_splits)
    qed
  qed
qed

lemma match_number_rest:
  assumes "match_number s = Inr (v, r)"
  shows "\<exists>n > 0. r = drop n s \<and> s \<noteq> []"
proof -
  define sign where "sign = (if s \<noteq> [] \<and> hd s = 45 then [45::nat] else [])"
  define digits where "digits = int_part (drop (length sign) s)"
  define frac where "frac = frac_part (drop (length digits) (drop (length sign) s))"
  define expo where "expo = exp_part (drop (length frac) (drop (length digits) (drop (length sign) s)))"
  have m: "match_number s =
      (if digits = [] then Inl JSONDecodeError
       else if frac \<noteq> [] \<or> expo \<noteq> [] then Inr (PFloat (sign @ digits @ frac @ expo),
          drop (length expo) (drop (length frac) (drop (length digits) (drop (length sign) s))))
       else if length digits > INT_MAX_STR_DIGITS then Inl ValueError
       else Inr (PInt (if sign = [] then int_of_digits digits else - int_of_digits digits),
          drop (length expo) (drop (length frac) (drop (length digits) (drop (length sign) s)))))"
    unfolding match_number_def Let_def digits_def sign_def frac_def expo_def by (rule refl)
  have d: "digits \<noteq> []"
    using assms unfolding m by (auto split: if_splits)
  have r: "r = drop (length expo) (drop (length frac) (drop (length digits) (drop (length sign) s)))"
    using assms unfolding m by (simp split: if_splits)
  have "s \<noteq> []"
    using d unfolding digits_def int_part_def by (auto split: if_splits)
  with d r show ?thesis
    by (intro exI[of _ "length expo + length frac + length digits + length sign"]) (simp add: ac_simps)
qed

lemma match_number_shorter:
  "match_number s = Inr (v, r) \<Longrightarrow> length r < length s"
  using match_number_rest[of s v r] by (auto simp: neq_Nil_conv)


lemma skip_ws_le: "length (skip_ws s) \<le> length s"
  by (simp add: skip_ws_def length_dropWhile_le)

lemma length_tl_skip_ws: "length (tl (skip_ws s)) \<le> length s"
  using skip_ws_le[of s] by simp

lemma length_skip_ws_tl_skip_ws: "length (skip_ws (tl (skip_ws s))) \<le> length s"
  using skip_ws_le[of "tl (skip_ws s)"] length_tl_skip_ws[of s] by simp

lemma scan_shorter_partial:
  "scan_once_array_loop_object_loop_dom (Inl s) \<Longrightarrow>
     scan_once s = Inr (v, r) \<Longrightarrow> length r < length s"
  "scan_once_array_loop_object_loop_dom (Inr (Inl (s1, acc))) \<Longrightarrow>
     array_loop s1 acc = Inr (v1, r1) \<Longrightarrow> length r1 < length s1"
  "scan_once_array_loop_object_loop_dom (Inr (Inr (s2, d))) \<Longrightarrow>
     object_loop s2 d = Inr (v2, r2) \<Longrightarrow> length r2 < length s2"
proof (induct s and s1 acc and s2 d arbitrary: v r and v1 r1 and v2 r2
    rule: scan_once_array_loop_object_loop.pinduct)
  case 1
  then show ?case by (simp add: scan_once.psimps)
next
  case (2 c cs)
  note dom = 2(1) and ihR = 2(2) and ihQ = 2(3) and res = 2(4)
  note eq = res[unfolded scan_once.psimps(2)[OF dom]]
  consider (str) "c = 34" | (obj) "c \<noteq> 34" "c = 123" | (arr) "c \<noteq> 34" "c \<noteq> 123" "c = 91"
    | (other) "c \<noteq> 34" "c \<noteq> 123" "c \<noteq> 91"
    by blast
  then show ?case
  proof cases
    case str
    with eq obtain k where "scanstring cs [] = Inr (k, r)"
      by (auto split: sum.splits)
    from scanstring_shorter[OF this] show ?thesis by simp
  next
    case obj
    show ?thesis
    proof (cases "skip_ws cs \<noteq> [] \<and> hd (skip_ws cs) = 125")
      case True
      with eq obj have "r = tl (skip_ws cs)" by (simp add: Let_def)
      with length_tl_skip_ws[of cs] show ?thesis by simp
    next
      case False
      with eq obj have "object_loop (skip_ws cs) [] = Inr (v, r)" by (simp add: Let_def)
      from ihR[OF obj refl False this] skip_ws_le[of cs] show ?thesis by simp
    qed
  next
    case arr
    show ?thesis
    proof (cases "skip_ws cs \<noteq> [] \<and> hd (skip_ws cs) = 93")
      case True
      with eq arr have "r = tl (skip_ws cs)" by (simp add: Let_def)
      with length_tl_skip_ws[of cs] show ?thesis by simp
    next
      case False
      with eq arr have "array_loop (skip_ws cs) [] = Inr (v, r)" by (simp add: Let_def)
      from ihQ[OF arr refl False this] skip_ws_le[of cs] show ?thesis by simp
    qed
  next
    case other
    with eq have "(\<exists>n > 0. r = drop n (c # cs)) \<or> match_number (c # cs) = Inr (v, r)"
      by (auto split: if_splits)
    then show ?thesis
      using match_number_shorter[of "c # cs" v r] by auto
  qed
next
  case (3 s acc)
  note dom = 3(1) and ihP = 3(2) and ihQ = 3(3) and res = 3(4)
  note eq = res[unfolded array_loop.psimps[OF dom]]
  from eq obtain x y where so: "scan_once s = Inr (x, y)"
    by (auto split: sum.splits)
  from ihP[OF so] have ys: "length y < length s" .
  show ?case
  proof (cases "skip_ws y \<noteq> [] \<and> hd (skip_ws y) = 93")
    case True
    with eq so have "r1 = tl (skip_ws y)" by (simp add: Let_def)
    with length_tl_skip_ws[of y] ys show ?thesis by simp
  next
    case False
    with eq so have c: "\<not> (skip_ws y = [] \<or> hd (skip_ws y) \<noteq> 44)"
      and l: "array_loop (skip_ws (tl (skip_ws y))) (acc @ [x]) = Inr (v1, r1)"
      by (auto simp: Let_def split: if_splits)
    from ihQ[OF so refl refl False c l] length_skip_ws_tl_skip_ws[of y] ys
    show ?thesis by simp
  qed
next
  case (4 s d)
  note dom = 4(1) and ihP = 4(2) and ihR = 4(3) and res = 4(4)
  note eq = res[unfolded object_loop.psimps[OF dom]]
  from eq have q: "\<not> (s = [] \<or> hd s \<noteq> 34)"
    by (auto split: if_splits)
  with eq obtain key r where ss: "scanstring (tl s) [] = Inr (key, r)"
    by (auto split: sum.splits)
  from scanstring_shorter[OF ss] have rs: "length r < length s" by simp
  from eq q ss have col: "\<not> (skip_ws r = [] \<or> hd (skip_ws r) \<noteq> 58)"
    by (auto simp: Let_def split: if_splits)
  with eq q ss obtain x y where so: "scan_once (skip_ws (tl (skip_ws r))) = Inr (x, y)"
    by (auto simp: Let_def split: sum.splits)
  from ihP[OF q ss refl refl col so] length_skip_ws_tl_skip_ws[of r] rs
  have ys: "length y < length s" by simp
  show ?case
  proof (cases "skip_ws y \<noteq> [] \<and> hd (skip_ws y) = 125")
    case True
    with eq q ss col so have "r2 = tl (skip_ws y)" by (simp add: Let_def)
    with length_tl_skip_ws[of y] ys show ?thesis by simp
  next
    case False
    with eq q ss col so have c: "\<not> (skip_ws y = [] \<or> hd (skip_ws y) \<noteq> 44)"
      and l: "object_loop (skip_ws (tl (skip_ws y))) (dict_set key x d) = Inr (v2, r2)"
      by (auto simp: Let_def split: if_splits)
    from ihR[OF q ss refl refl col so refl refl False c l] length_skip_ws_tl_skip_ws[of y] ys
    show ?thesis by simp
  qed
qed

termination scan_once
proof (relation "measure (\<lambda>x. case x of
         Inl s \<Rightarrow> 2 * length s
       | Inr (Inl (s, acc)) \<Rightarrow> 2 * length s + 1
       | Inr (Inr (s, d)) \<Rightarrow> 2 * length s + 1)", goal_cases)
  case 1
  show ?case by simp
next
  case (2 c cs x)
  with skip_ws_le[of cs] show ?case by simp
next
  case (3 c cs x)
  with skip_ws_le[of cs] show ?case by simp
next
  case (4 s acc)
  show ?case by simp
next
  case (5 s acc b x y xa)
  then have "length y < length s"
    using scan_shorter_partial(1)[of s x y] by simp
  with 5 length_skip_ws_tl_skip_ws[of y] show ?case by simp
next
  case (6 s d b x y xa)
  then have "length y < length s"
    using scanstring_shorter[of "tl s" "[]" x y] by (cases s) auto
  with 6 length_skip_ws_tl_skip_ws[of y] show ?case by simp
next
  case (7 s d b x y xa ba xaa ya xab)
  then have a: "length y < length s"
    using scanstring_shorter[of "tl s" "[]" x y] by (cases s) auto
  from 7 have "length ya < length (skip_ws (tl (skip_ws y)))"
    using scan_shorter_partial(1)[of "skip_ws (tl (skip_ws y))" xaa ya] by simp
  with a length_skip_ws_tl_skip_ws[of y] have "length ya < length s" by simp
  with 7 length_skip_ws_tl_skip_ws[of ya] show ?case by simp
qed

text \<open>
  \<^verbatim>\<open>json.loads(s)\<close>: a leading byte order mark is refused, white space around the value
  is skipped, anything after the value is an error.
\<close>

definition json_loads :: "str \<Rightarrow> exn + pyval" where
  "json_loads s =
     (if s \<noteq> [] \<and> hd s = 65279 then Inl JSONDecodeError
      else
        (case scan_once (skip_ws s) of
           Inl e \<Rightarrow> Inl e
         | Inr (obj, r) \<Rightarrow> if skip_ws r = [] then Inr obj else Inl JSONDecodeError))"

section \<open>Operations on Python objects\<close>

text \<open>
  The handler applies operators and methods to objects whose type is only known when it
  runs. Each operation below is the Python operation on the objects of \<^typ>\<open>pyval\<close>: it
  returns the result, or the exception Python raises for an operand of that type.
\<close>

fun is_substring :: "str \<Rightarrow> str \<Rightarrow> bool" where
  "is_substring p [] = (p = [])"
| "is_substring p (c # cs) = (starts_with p (c # cs) \<or> is_substring p cs)"

text \<open>
  \<^verbatim>\<open>key in obj\<close> for a string \<open>key\<close>: a key of a dictionary, an element of a list, a
  substring of a string; \<^verbatim>\<open>TypeError\<close> for an object that is not a container.
\<close>

definition py_contains :: "str \<Rightarrow> pyval \<Rightarrow> exn + bool" where
  "py_contains key obj =
     (case obj of
        PDict d \<Rightarrow> Inr (map_of d key \<noteq> None)
      | PList xs \<Rightarrow> Inr (PStr key \<in> set xs)
      | PStr s \<Rightarrow> Inr (is_substring key s)
      | _ \<Rightarrow> Inl TypeError)"

text \<open>
  \<^verbatim>\<open>obj[key]\<close> for a string \<open>key\<close>: the value of a dictionary (\<^verbatim>\<open>KeyError\<close> without the
  key); lists and strings take integer indices only, other objects have no subscript.
\<close>

definition py_getitem :: "pyval \<Rightarrow> str \<Rightarrow> exn + pyval" where
  "py_getitem obj key =
     (case obj of
        PDict d \<Rightarrow> (case map_of d key of Some v \<Rightarrow> Inr v | None \<Rightarrow> Inl KeyError)
      | _ \<Rightarrow> Inl TypeError)"

text \<open>\<^verbatim>\<open>obj.get(key, default)\<close>: only a dictionary has the method.\<close>

definition py_get :: "pyval \<Rightarrow> str \<Rightarrow> pyval \<Rightarrow> exn + pyval" where
  "py_get obj key dflt =
     (case obj of
        PDict d \<Rightarrow> Inr (case map_of d key of Some v \<Rightarrow> v | None \<Rightarrow> dflt)
      | _ \<Rightarrow> Inl AttributeError)"

text \<open>
  \<^verbatim>\<open>for item in obj\<close>: the elements of a list, the keys of a dictionary, the characters of
  a string; \<^verbatim>\<open>TypeError\<close> for an object that is not iterable.
\<close>

definition py_iter :: "pyval \<Rightarrow> exn + pyval list" where
  "py_iter obj =
     (case obj of
        PList xs \<Rightarrow> Inr xs
      | PDict d \<Rightarrow> Inr (map (\<lambda>kv. PStr (fst kv)) d)
      | PStr s \<Rightarrow> Inr (map (\<lambda>c. PStr [c]) s)
      | _ \<Rightarrow> Inl TypeError)"

text \<open>
  \<^verbatim>\<open>obj[0]\<close>: the first element of a list or of a string (\<^verbatim>\<open>IndexError\<close> when it is
  empty); a dictionary with string keys has no key 0.
\<close>

definition py_first :: "pyval \<Rightarrow> exn + pyval" where
  "py_first obj =
     (case obj of
        PList xs \<Rightarrow> (case xs of [] \<Rightarrow> Inl IndexError | x # _ \<Rightarrow> Inr x)
      | PStr s \<Rightarrow> (case s of [] \<Rightarrow> Inl IndexError | c # _ \<Rightarrow> Inr (PStr [c]))
      | PDict d \<Rightarrow> Inl KeyError
      | _ \<Rightarrow> Inl TypeError)"

text \<open>\<^verbatim>\<open>"\n".join(items)\<close>: every item has to be a string.\<close>

fun strs_of :: "pyval list \<Rightarrow> exn + str list" where
  "strs_of [] = Inr []"
| "strs_of (PStr s # xs) = (case strs_of xs of Inl e \<Rightarrow> Inl e | Inr ss \<Rightarrow> Inr (s # ss))"
| "strs_of (_ # xs) = Inl TypeError"

definition py_join_nl :: "pyval list \<Rightarrow> exn + str" where
  "py_join_nl items = (case strs_of items of Inl e \<Rightarrow> Inl e | Inr ss \<Rightarrow> Inr (join_nl ss))"

section \<open>The handler\<close>

subsection \<open>Request, response, services\<close>

text \<open>
  The event is the dictionary the Lambda runtime passes; the handler reads the keys
  \<^verbatim>\<open>body\<close> and \<^verbatim>\<open>isBase64Encoded\<close> with \<^verbatim>\<open>event.get\<close>. A key can be absent, hold \<^verbatim>\<open>None\<close>
  (JSON null), or hold a value of the type section 6 of the specification gives it.
\<close>

datatype 'a entry = Absent | Null | Present 'a

record event =
  event_body :: "str entry"
  event_isBase64Encoded :: "bool entry"

text \<open>
  \<^verbatim>\<open>json.dumps(obj)\<close>: the JSON text of an object. The handler only hands the text on, so
  the text is identified by the object it encodes.
\<close>

datatype json_text = json_dumps pyval

record response =
  statusCode :: int
  body :: json_text

text \<open>
  The arguments of \<^verbatim>\<open>bedrock.invoke_model\<close>, and the calls the handler makes to its two
  service clients, in the order it makes them.
\<close>

record invoke_model_args =
  contentType :: str
  request_body :: json_text
  modelId :: str

datatype call = DetectDocumentText bytes | InvokeModel invoke_model_args

text \<open>
  What the handler does not determine itself: the Textract client, which returns the
  response dictionary for the document bytes or raises; the Bedrock client together
  with \<^verbatim>\<open>['body'].read().decode('utf-8')\<close>, which returns the text of the response payload
  or raises; \<^verbatim>\<open>str(e)\<close>, the message text of an exception; and \<^verbatim>\<open>print("Error:", text)\<close>,
  which writes the line to the standard output and returns (\<open>None\<close>), or raises when the
  write fails. Every exception is a subclass of \<^verbatim>\<open>Exception\<close>, which is what the
  \<^verbatim>\<open>except\<close> clause catches.
\<close>

record env =
  detect_document_text :: "bytes \<Rightarrow> exn + pyval"
  invoke_model :: "invoke_model_args \<Rightarrow> exn + str"
  exception_str :: "exn \<Rightarrow> str"
  print_error :: "str \<Rightarrow> exn option"

text \<open>
  The standard output of the Lambda runtime is a UTF-8 text stream with strict error
  handling: it writes every string but one that holds a surrogate code point (U+D800 to
  U+DFFF), for which the encoder raises \<^verbatim>\<open>UnicodeEncodeError\<close>.
\<close>

definition utf8_print :: "str \<Rightarrow> exn option" where
  "utf8_print s =
     (if list_ex (\<lambda>c. 55296 \<le> c \<and> c \<le> 57343) s then Some UnicodeEncodeError else None)"

text \<open>
  A statement inside the \<^verbatim>\<open>try\<close> block raises, returns a response from the handler, or
  goes on with a value.
\<close>

datatype 'a flow = Raise exn | Return response | Continue 'a

subsection \<open>Input decoding (lines 10 to 18)\<close>

text \<open>\<^verbatim>\<open>event.get("body", "")\<close>; \<open>PNone\<close> when the key holds \<^verbatim>\<open>None\<close>.\<close>

definition get_body :: "event \<Rightarrow> pyval" where
  "get_body ev = (case event_body ev of Absent \<Rightarrow> PStr [] | Null \<Rightarrow> PNone | Present s \<Rightarrow> PStr s)"

text \<open>The truth value of \<^verbatim>\<open>event.get("isBase64Encoded", False)\<close>.\<close>

definition is_base64_encoded :: "event \<Rightarrow> bool" where
  "is_base64_encoded ev =
     (case event_isBase64Encoded ev of Absent \<Rightarrow> False | Null \<Rightarrow> False | Present b \<Rightarrow> b)"

text \<open>
  \<^verbatim>\<open>json.loads(body) if body else {}\<close>, for the body \<^const>\<open>get_body\<close> returns: \<^verbatim>\<open>None\<close> and
  the empty string are false.
\<close>

definition load_event_data :: "pyval \<Rightarrow> exn + pyval" where
  "load_event_data body' =
     (case body' of
        PStr s \<Rightarrow> if s \<noteq> [] then json_loads s else Inr (PDict [])
      | _ \<Rightarrow> Inr (PDict []))"

text \<open>The two status 400 responses of the handler (lines 18 and 27).\<close>

definition no_file_data :: response where
  "no_file_data =
     \<lparr>statusCode = 400, body = json_dumps (PStr (ascii ''No file data provided''))\<rparr>"

definition no_text_found :: response where
  "no_text_found =
     \<lparr>statusCode = 400, body = json_dumps (PStr (ascii ''OCR found no text''))\<rparr>"

definition decode_input :: "event \<Rightarrow> bytes flow" where
  "decode_input ev =
     (let body' = get_body ev in
      if is_base64_encoded ev then
        (case b64decode body' of
           Inl e \<Rightarrow> Raise e
         | Inr image_bytes \<Rightarrow> Continue image_bytes)
      else
        (case load_event_data body' of
           Inl e \<Rightarrow> Raise e
         | Inr event_data \<Rightarrow>
             (case py_contains (ascii ''file_data'') event_data of
                Inl e \<Rightarrow> Raise e
              | Inr True \<Rightarrow>
                  (case py_getitem event_data (ascii ''file_data'') of
                     Inl e \<Rightarrow> Raise e
                   | Inr file_data \<Rightarrow>
                       (case b64decode file_data of
                          Inl e \<Rightarrow> Raise e
                        | Inr image_bytes \<Rightarrow> Continue image_bytes))
              | Inr False \<Rightarrow> Return no_file_data)))"

subsection \<open>Text of the line blocks (lines 22 to 24)\<close>

text \<open>
  \<^verbatim>\<open>[item["Text"] for item in blocks if item.get("BlockType") == "LINE"]\<close>, evaluated item
  by item: the first exception ends the comprehension.
\<close>

fun text_lines :: "pyval list \<Rightarrow> exn + pyval list" where
  "text_lines [] = Inr []"
| "text_lines (item # items) =
     (case py_get item (ascii ''BlockType'') PNone of
        Inl e \<Rightarrow> Inl e
      | Inr block_type \<Rightarrow>
          if block_type = PStr (ascii ''LINE'') then
            (case py_getitem item (ascii ''Text'') of
               Inl e \<Rightarrow> Inl e
             | Inr txt \<Rightarrow>
                 (case text_lines items of Inl e \<Rightarrow> Inl e | Inr txts \<Rightarrow> Inr (txt # txts)))
          else text_lines items)"

definition full_text_of :: "pyval \<Rightarrow> exn + str" where
  "full_text_of textract_response =
     (case py_get textract_response (ascii ''Blocks'') (PList []) of
        Inl e \<Rightarrow> Inl e
      | Inr blocks \<Rightarrow>
          (case py_iter blocks of
             Inl e \<Rightarrow> Inl e
           | Inr items \<Rightarrow>
               (case text_lines items of
                  Inl e \<Rightarrow> Inl e
                | Inr lines \<Rightarrow> py_join_nl lines)))"

subsection \<open>The request to the model (lines 30 to 40)\<close>

definition prompt_of :: "str \<Rightarrow> str" where
  "prompt_of full_text =
     ascii ''Summarize this tax document in exactly 3 lines:'' @ [10] @ full_text"

definition bedrock_request :: "str \<Rightarrow> invoke_model_args" where
  "bedrock_request full_text =
     \<lparr>contentType = ascii ''application/json'',
      request_body = json_dumps (PDict
        [(ascii ''anthropic_version'', PStr (ascii ''bedrock-2023-05-31'')),
         (ascii ''max_tokens'', PInt 200),
         (ascii ''messages'', PList
            [PDict [(ascii ''role'', PStr (ascii ''user'')),
                    (ascii ''content'', PStr (prompt_of full_text))]])]),
      modelId = ascii ''anthropic.claude-3-sonnet-20240229-v1:0''\<rparr>"

subsection \<open>The summary out of the model's response (lines 42 to 51)\<close>

text \<open>
  \<^verbatim>\<open>result_json.get("content", [{}])[0].get("text", "")\<close> on the decoded payload, and the
  normalisation of the text; \<^verbatim>\<open>summary_text.strip()\<close> needs a string.
\<close>

definition summary_text_of :: "str \<Rightarrow> exn + pyval" where
  "summary_text_of payload =
     (case json_loads payload of
        Inl e \<Rightarrow> Inl e
      | Inr result_json \<Rightarrow>
          (case py_get result_json (ascii ''content'') (PList [PDict []]) of
             Inl e \<Rightarrow> Inl e
           | Inr content \<Rightarrow>
               (case py_first content of
                  Inl e \<Rightarrow> Inl e
                | Inr segment \<Rightarrow> py_get segment (ascii ''text'') (PStr []))))"

definition summary_of :: "str \<Rightarrow> exn + str list" where
  "summary_of payload =
     (case summary_text_of payload of
        Inl e \<Rightarrow> Inl e
      | Inr summary_text \<Rightarrow>
          (case summary_text of
             PStr s \<Rightarrow> Inr (summary_lines s)
           | _ \<Rightarrow> Inl AttributeError))"

subsection \<open>\<^verbatim>\<open>lambda_handler\<close>\<close>

definition success :: "str \<Rightarrow> str list \<Rightarrow> response" where
  "success full_text lines =
     \<lparr>statusCode = 200,
      body = json_dumps (PDict
        [(ascii ''extracted_text'', PStr full_text),
         (ascii ''summary'', PList (map PStr lines))])\<rparr>"

text \<open>
  The \<^verbatim>\<open>try\<close> block: the calls made to the services, and the response returned or the
  exception raised.
\<close>

definition try_block :: "env \<Rightarrow> event \<Rightarrow> call list \<times> (exn + response)" where
  "try_block services ev =
     (case decode_input ev of
        Raise e \<Rightarrow> ([], Inl e)
      | Return r \<Rightarrow> ([], Inr r)
      | Continue image_bytes \<Rightarrow>
          (let calls1 = [DetectDocumentText image_bytes] in
           case detect_document_text services image_bytes of
             Inl e \<Rightarrow> (calls1, Inl e)
           | Inr textract_response \<Rightarrow>
               (case full_text_of textract_response of
                  Inl e \<Rightarrow> (calls1, Inl e)
                | Inr full_text \<Rightarrow>
                    if full_text = [] then (calls1, Inr no_text_found)
                    else
                      (let args = bedrock_request full_text;
                           calls2 = calls1 @ [InvokeModel args] in
                       case invoke_model services args of
                         Inl e \<Rightarrow> (calls2, Inl e)
                       | Inr payload \<Rightarrow>
                           (case summary_of payload of
                              Inl e \<Rightarrow> (calls2, Inl e)
                            | Inr lines \<Rightarrow> (calls2, Inr (success full_text lines)))))))"

text \<open>
  The \<^verbatim>\<open>except Exception as e\<close> clause (lines 59 to 61): it prints the error and then
  returns the status 500 response. An exception that the \<^verbatim>\<open>print\<close> raises is raised inside
  the handler of the only \<^verbatim>\<open>try\<close> statement, so it leaves \<^verbatim>\<open>lambda_handler\<close>.
\<close>

definition server_error :: "env \<Rightarrow> exn \<Rightarrow> response" where
  "server_error services e =
     \<lparr>statusCode = 500,
      body = json_dumps (PStr (ascii ''Server error: '' @ exception_str services e))\<rparr>"

definition except_clause :: "env \<Rightarrow> exn \<Rightarrow> exn + response" where
  "except_clause services e =
     (case print_error services (exception_str services e) of
        Some raised \<Rightarrow> Inl raised
      | None \<Rightarrow> Inr (server_error services e))"

text \<open>
  The handler: the calls it has made to the services, and the response it returns
  (\<open>Inr\<close>) or the exception that reaches its caller (\<open>Inl\<close>).
\<close>

definition lambda_handler :: "env \<Rightarrow> event \<Rightarrow> call list \<times> (exn + response)" where
  "lambda_handler services ev =
     (case try_block services ev of
        (calls, Inl e) \<Rightarrow> (calls, except_clause services e)
      | (calls, Inr r) \<Rightarrow> (calls, Inr r))"

section \<open>Properties of the summary normalisation\<close>

lemma pad_until_3_eq: "pad_until_3 ls = ls @ replicate (3 - length ls) []"
proof (induction ls rule: pad_until_3.induct)
  case (1 ls)
  show ?case
  proof (cases "length ls < 3")
    case True
    then have "3 - length ls = Suc (3 - length (ls @ [[]]))" by simp
    with 1[OF True] True show ?thesis
      by (subst pad_until_3.simps) (simp add: replicate_app_Cons_same)
  next
    case False
    then show ?thesis by (subst pad_until_3.simps) simp
  qed
qed

lemma truncate_pad:
  "(if length xs > 3 then take 3 xs
    else if length xs < 3 then xs @ replicate (3 - length xs) [] else xs) =
   pad_until_3 (if length xs > 3 then take 3 xs else xs)"
proof -
  consider "length xs > 3" | "length xs < 3" | "length xs = 3" by arith
  then show ?thesis
  proof cases
    case 1
    then show ?thesis by (simp add: pad_until_3_eq min_def)
  next
    case 2
    then show ?thesis by (simp add: pad_until_3_eq)
  next
    case 3
    then show ?thesis by (simp add: pad_until_3_eq)
  qed
qed

lemma summary_lines_spec: "summary_lines s = spec_normalize s"
proof -
  have "map strip (filter (\<lambda>line. strip line \<noteq> []) (split_nl (strip s))) =
        filter (\<lambda>l. l \<noteq> []) (map strip (split_nl (strip s)))"
    by (simp add: filter_map comp_def)
  then show ?thesis
    unfolding summary_lines_def spec_normalize_def Let_def
    by (simp only: truncate_pad)
qed

lemma length_summary_lines: "length (summary_lines s) = 3"
  by (simp add: summary_lines_def Let_def)

lemma split_nl_no_newline: "l \<in> set (split_nl s) \<Longrightarrow> 10 \<notin> set l"
proof (induction s arbitrary: l rule: split_nl.induct)
  case (1 s)
  show ?case
  proof (cases "dropWhile (\<lambda>c. c \<noteq> 10) s")
    case Nil
    with "1.prems" have "l = takeWhile (\<lambda>c. c \<noteq> 10) s"
      by (subst (asm) split_nl.simps) simp
    then show ?thesis by (auto dest: set_takeWhileD)
  next
    case (Cons nl rest)
    with "1.prems" have "l = takeWhile (\<lambda>c. c \<noteq> 10) s \<or> l \<in> set (split_nl rest)"
      by (subst (asm) split_nl.simps) simp
    then show ?thesis
    proof
      assume "l = takeWhile (\<lambda>c. c \<noteq> 10) s"
      then show ?thesis by (auto dest: set_takeWhileD)
    next
      assume "l \<in> set (split_nl rest)"
      with Cons show ?thesis by (rule "1.IH")
    qed
  qed
qed

lemma set_strip: "set (strip s) \<subseteq> set s"
proof -
  have "set (strip s) = set (dropWhile isspace (rev (dropWhile isspace s)))"
    by (simp add: strip_def)
  also have "\<dots> \<subseteq> set (rev (dropWhile isspace s))"
    by (auto dest: set_dropWhileD)
  also have "\<dots> \<subseteq> set s"
    by (auto dest: set_dropWhileD)
  finally show ?thesis .
qed

lemma strip_ends:
  assumes "strip s \<noteq> []"
  shows "\<not> isspace (hd (strip s))" and "\<not> isspace (last (strip s))"
proof -
  define ys where "ys = dropWhile isspace s"
  define zs where "zs = dropWhile isspace (rev ys)"
  have st: "strip s = rev zs" by (simp add: strip_def ys_def zs_def)
  with assms have zs: "zs \<noteq> []" by simp
  then have ys: "ys \<noteq> []" unfolding zs_def by auto
  have "last zs = last (rev ys)"
    using zs unfolding zs_def
    by (metis append_Nil2 last_appendR takeWhile_dropWhile_id)
  then have "hd (strip s) = hd ys"
    using st zs ys by (simp add: hd_rev last_rev)
  moreover have "\<not> isspace (hd ys)"
    using ys unfolding ys_def by (rule hd_dropWhile)
  ultimately show "\<not> isspace (hd (strip s))" by simp
  have "last (strip s) = hd zs" using st zs by (simp add: last_rev)
  moreover have "\<not> isspace (hd zs)"
    using zs unfolding zs_def by (rule hd_dropWhile)
  ultimately show "\<not> isspace (last (strip s))" by simp
qed

lemma summary_lines_elem:
  assumes "l \<in> set (summary_lines s)"
  shows "10 \<notin> set l \<and> (l = [] \<or> (\<not> isspace (hd l) \<and> \<not> isspace (last l)))"
proof -
  from assms have "l = [] \<or> (\<exists>p \<in> set (split_nl (strip s)). l = strip p)"
    by (auto simp: summary_lines_def Let_def split: if_splits dest!: in_set_takeD)
  then show ?thesis
  proof
    assume "l = []" then show ?thesis by simp
  next
    assume "\<exists>p \<in> set (split_nl (strip s)). l = strip p"
    then obtain p where p: "p \<in> set (split_nl (strip s))" and l: "l = strip p" by blast
    from split_nl_no_newline[OF p] set_strip[of p] l have "10 \<notin> set l" by auto
    moreover have "l = [] \<or> (\<not> isspace (hd l) \<and> \<not> isspace (last l))"
      using strip_ends[of p] l by auto
    ultimately show ?thesis by simp
  qed
qed

section \<open>The base64 round trip\<close>

lemma bit_index_cases: "n < 8 \<Longrightarrow> n \<in> {0, 1, 2, 3, 4, 5, 6, 7::nat}"
  by auto

lemma word8_eqI:
  fixes a b :: "8 word"
  assumes "bit a 0 = bit b 0" "bit a 1 = bit b 1" "bit a 2 = bit b 2" "bit a 3 = bit b 3"
    "bit a 4 = bit b 4" "bit a 5 = bit b 5" "bit a 6 = bit b 6" "bit a 7 = bit b 7"
  shows "a = b"
proof (rule bit_word_eqI)
  fix n :: nat assume "n < LENGTH(8)"
  then have "n < 8" by simp
  from bit_index_cases[OF this] assms show "bit a n = bit b n"
    by auto
qed

lemma sextet_bound:
  fixes v :: "8 word"
  assumes "drop_bit 6 v = 0"
  shows "unat v < 64"
proof -
  have "drop_bit 6 (unat v) = unat (drop_bit 6 v)" by (simp only: unat_drop_bit_eq)
  also have "\<dots> = 0" using assms by simp
  finally have "unat v div 64 = 0" by (simp add: drop_bit_eq_div)
  then show ?thesis by (simp add: div_eq_0_iff)
qed

lemma table_b64char_nat:
  "n < 64 \<Longrightarrow>
    table_a2b_base64 (if n < 26 then 65 + n else if n < 52 then 71 + n else if n < 62 then n - 4
      else if n = 62 then 43 else 47) = Some (of_nat n)"
proof -
  assume "n < 64"
  then consider "n < 62" | "n = 62" | "n = 63" by arith
  then show ?thesis by cases (auto simp: table_a2b_base64_def)
qed

lemma table_b64char:
  fixes v :: "8 word"
  assumes "drop_bit 6 v = 0"
  shows "table_a2b_base64 (b64char v) = Some v"
  using table_b64char_nat[OF sextet_bound[OF assms]] by (simp add: b64char_def Let_def)

lemma b64char_ascii: "b64char v < 128"
  by (auto simp: b64char_def Let_def)

lemma b64char_not_pad: "b64char v \<noteq> 61"
  by (auto simp: b64char_def Let_def)

lemma sextet_range:
  "drop_bit 6 (sextet0 a) = 0" "drop_bit 6 (sextet1 a b) = 0"
  "drop_bit 6 (sextet2 b c) = 0" "drop_bit 6 (sextet3 c) = 0"
  unfolding sextet0_def sextet1_def sextet2_def sextet3_def
  by (rule word8_eqI; auto simp: bit_simps dest: bit_imp_le_length)+

lemma table_sextet:
  "table_a2b_base64 (b64char (sextet0 a)) = Some (sextet0 a)"
  "table_a2b_base64 (b64char (sextet1 a b)) = Some (sextet1 a b)"
  "table_a2b_base64 (b64char (sextet2 b c)) = Some (sextet2 b c)"
  "table_a2b_base64 (b64char (sextet3 c)) = Some (sextet3 c)"
  by (rule table_b64char, rule sextet_range)+

text \<open>The decoder's three output bytes of a quad are the three bytes that were encoded.\<close>

lemma regroup:
  "push_bit 2 (sextet0 a) OR drop_bit 4 (sextet1 a b) = a"
  "push_bit 4 (sextet1 a b AND 15) OR drop_bit 2 (sextet2 b c) = b"
  "push_bit 6 (sextet2 b c AND 3) OR sextet3 c = c"
  "(push_bit 4 (sextet1 a b) AND 240) OR drop_bit 2 (sextet2 b c) = b"
  "(push_bit 6 (sextet2 b c) AND 192) OR sextet3 c = c"
  unfolding sextet0_def sextet1_def sextet2_def sextet3_def
  by (rule word8_eqI; auto simp: bit_simps dest: bit_imp_le_length)+

lemma a2b_b64encode:
  "a2b_base64 (b64encode X) 0 0 0 out = Inr (out @ X)"
proof (induction X arbitrary: out rule: b64encode.induct)
  case 1
  show ?case by simp
next
  case (2 a)
  show ?case
    by (simp add: b64char_not_pad table_sextet regroup)
next
  case (3 a b)
  show ?case
    by (simp add: b64char_not_pad table_sextet regroup)
next
  case (4 a b c rest)
  show ?case
    by (simp add: b64char_not_pad table_sextet regroup 4)
qed

lemma b64encode_ascii: "\<not> list_ex (\<lambda>c. c \<ge> 128) (b64encode X)"
  by (induction X rule: b64encode.induct)
     (simp_all add: b64char_ascii not_le)

lemma b64decode_b64encode: "b64decode (PStr (b64encode X)) = Inr X"
  using a2b_b64encode[of X "[]"] by (simp add: b64decode_def b64encode_ascii)

section \<open>The paths through the handler\<close>

lemma status_codes [simp]:
  "statusCode no_file_data = 400" "statusCode no_text_found = 400"
  "statusCode (server_error services e) = 500" "statusCode (success t lines) = 200"
  by (simp_all add: no_file_data_def no_text_found_def server_error_def success_def)

text \<open>The \<^verbatim>\<open>except\<close> clause returns the status 500 response or raises, nothing else.\<close>

lemma except_clause_printed:
  "print_error services (exception_str services e) = None \<Longrightarrow>
   except_clause services e = Inr (server_error services e)"
  by (simp add: except_clause_def)

lemma except_clause_raised:
  "print_error services (exception_str services e) = Some raised \<Longrightarrow>
   except_clause services e = Inl raised"
  by (simp add: except_clause_def)

lemma except_clause_Inr:
  "except_clause services e = Inr r \<Longrightarrow> r = server_error services e"
  by (auto simp: except_clause_def split: option.splits)

lemma decode_input_Return: "decode_input ev = Return r \<Longrightarrow> r = no_file_data"
  unfolding decode_input_def Let_def
  by (auto split: if_splits sum.splits bool.splits)

lemma handler_decode_Raise:
  "decode_input ev = Raise e \<Longrightarrow> lambda_handler services ev = ([], except_clause services e)"
  by (simp add: lambda_handler_def try_block_def)

lemma handler_decode_Return:
  "decode_input ev = Return r \<Longrightarrow> lambda_handler services ev = ([], Inr r)"
  by (simp add: lambda_handler_def try_block_def)

lemma handler_detect_Raise:
  "decode_input ev = Continue b \<Longrightarrow> detect_document_text services b = Inl e \<Longrightarrow>
   lambda_handler services ev = ([DetectDocumentText b], except_clause services e)"
  by (simp add: lambda_handler_def try_block_def)

lemma handler_full_text_Raise:
  "decode_input ev = Continue b \<Longrightarrow> detect_document_text services b = Inr resp \<Longrightarrow>
   full_text_of resp = Inl e \<Longrightarrow>
   lambda_handler services ev = ([DetectDocumentText b], except_clause services e)"
  by (simp add: lambda_handler_def try_block_def)

lemma handler_no_text:
  "decode_input ev = Continue b \<Longrightarrow> detect_document_text services b = Inr resp \<Longrightarrow>
   full_text_of resp = Inr [] \<Longrightarrow>
   lambda_handler services ev = ([DetectDocumentText b], Inr no_text_found)"
  by (simp add: lambda_handler_def try_block_def)

lemma handler_invoke_Raise:
  "decode_input ev = Continue b \<Longrightarrow> detect_document_text services b = Inr resp \<Longrightarrow>
   full_text_of resp = Inr t \<Longrightarrow> t \<noteq> [] \<Longrightarrow>
   invoke_model services (bedrock_request t) = Inl e \<Longrightarrow>
   lambda_handler services ev =
     ([DetectDocumentText b, InvokeModel (bedrock_request t)], except_clause services e)"
  by (simp add: lambda_handler_def try_block_def Let_def)

lemma handler_summary_Raise:
  "decode_input ev = Continue b \<Longrightarrow> detect_document_text services b = Inr resp \<Longrightarrow>
   full_text_of resp = Inr t \<Longrightarrow> t \<noteq> [] \<Longrightarrow>
   invoke_model services (bedrock_request t) = Inr payload \<Longrightarrow> summary_of payload = Inl e \<Longrightarrow>
   lambda_handler services ev =
     ([DetectDocumentText b, InvokeModel (bedrock_request t)], except_clause services e)"
  by (simp add: lambda_handler_def try_block_def Let_def)

lemma handler_success:
  "decode_input ev = Continue b \<Longrightarrow> detect_document_text services b = Inr resp \<Longrightarrow>
   full_text_of resp = Inr t \<Longrightarrow> t \<noteq> [] \<Longrightarrow>
   invoke_model services (bedrock_request t) = Inr payload \<Longrightarrow> summary_of payload = Inr lines \<Longrightarrow>
   lambda_handler services ev =
     ([DetectDocumentText b, InvokeModel (bedrock_request t)], Inr (success t lines))"
  by (simp add: lambda_handler_def try_block_def Let_def)

text \<open>Every run of the handler takes one of the paths above.\<close>

lemma handler_paths:
  obtains (decode_raise) e where "decode_input ev = Raise e"
  | (decode_return) "decode_input ev = Return no_file_data"
  | (detect_raise) b e where "decode_input ev = Continue b" "detect_document_text services b = Inl e"
  | (text_raise) b resp e where "decode_input ev = Continue b"
      "detect_document_text services b = Inr resp" "full_text_of resp = Inl e"
  | (no_text) b resp where "decode_input ev = Continue b"
      "detect_document_text services b = Inr resp" "full_text_of resp = Inr []"
  | (invoke_raise) b resp t e where "decode_input ev = Continue b"
      "detect_document_text services b = Inr resp" "full_text_of resp = Inr t" "t \<noteq> []"
      "invoke_model services (bedrock_request t) = Inl e"
  | (summary_raise) b resp t payload e where "decode_input ev = Continue b"
      "detect_document_text services b = Inr resp" "full_text_of resp = Inr t" "t \<noteq> []"
      "invoke_model services (bedrock_request t) = Inr payload" "summary_of payload = Inl e"
  | (succeed) b resp t payload lines where "decode_input ev = Continue b"
      "detect_document_text services b = Inr resp" "full_text_of resp = Inr t" "t \<noteq> []"
      "invoke_model services (bedrock_request t) = Inr payload" "summary_of payload = Inr lines"
proof (cases "decode_input ev")
  case (Raise e)
  then show ?thesis by (rule decode_raise)
next
  case (Return r)
  with decode_input_Return[OF Return] show ?thesis by (auto intro: decode_return)
next
  case (Continue b)
  show ?thesis
  proof (cases "detect_document_text services b")
    case (Inl e)
    with Continue show ?thesis by (rule detect_raise)
  next
    case resp: (Inr resp)
    show ?thesis
    proof (cases "full_text_of resp")
      case (Inl e)
      with Continue resp show ?thesis by (rule text_raise)
    next
      case t: (Inr t)
      show ?thesis
      proof (cases "t = []")
        case True
        with Continue resp t show ?thesis by (auto intro: no_text)
      next
        case False
        show ?thesis
        proof (cases "invoke_model services (bedrock_request t)")
          case (Inl e)
          with Continue resp t False show ?thesis by (rule invoke_raise)
        next
          case p: (Inr payload)
          show ?thesis
          proof (cases "summary_of payload")
            case (Inl e)
            with Continue resp t False p show ?thesis by (rule summary_raise)
          next
            case (Inr lines)
            with Continue resp t False p show ?thesis by (rule succeed)
          qed
        qed
      qed
    qed
  qed
qed

lemma handler_200:
  assumes "snd (lambda_handler services ev) = Inr r" and "statusCode r = 200"
  obtains b resp t payload lines where "decode_input ev = Continue b"
      "detect_document_text services b = Inr resp" "full_text_of resp = Inr t" "t \<noteq> []"
      "invoke_model services (bedrock_request t) = Inr payload" "summary_of payload = Inr lines"
      "lambda_handler services ev =
         ([DetectDocumentText b, InvokeModel (bedrock_request t)], Inr (success t lines))"
      "r = success t lines"
proof (cases rule: handler_paths[where ev=ev and services=services])
  case (decode_raise e)
  with assms show ?thesis by (auto simp: handler_decode_Raise dest: except_clause_Inr)
next
  case decode_return
  with assms show ?thesis by (auto simp: handler_decode_Return)
next
  case (detect_raise b e)
  with assms show ?thesis by (auto simp: handler_detect_Raise dest: except_clause_Inr)
next
  case (text_raise b resp e)
  with assms show ?thesis by (auto simp: handler_full_text_Raise dest: except_clause_Inr)
next
  case (no_text b resp)
  with assms show ?thesis by (auto simp: handler_no_text)
next
  case (invoke_raise b resp t e)
  with assms show ?thesis by (auto simp: handler_invoke_Raise dest: except_clause_Inr)
next
  case (summary_raise b resp t payload e)
  with assms show ?thesis by (auto simp: handler_summary_Raise dest: except_clause_Inr)
next
  case (succeed b resp t payload lines)
  from handler_success[OF succeed] assms(1) have "r = success t lines" by simp
  with that succeed handler_success[OF succeed] show ?thesis by blast
qed

lemma summary_of_three:
  assumes "summary_of payload = Inr lines"
  obtains a b c where "lines = [a, b, c]"
proof -
  from assms obtain s where "lines = summary_lines s"
    by (auto simp: summary_of_def split: sum.splits pyval.splits)
  with length_summary_lines[of s] have "length lines = 3" by simp
  then obtain a b c where "lines = [a, b, c]"
    by (auto simp: numeral_3_eq_3 length_Suc_conv)
  then show ?thesis by (rule that)
qed

text \<open>
  An exception of the \<^verbatim>\<open>try\<close> block ends in the status 500 response when the \<^verbatim>\<open>print\<close> of
  the \<^verbatim>\<open>except\<close> clause succeeds, and leaves the handler as the exception of the
  \<^verbatim>\<open>print\<close> when it does not.
\<close>

lemma caught_exception_is_server_error:
  assumes "try_block services ev = (calls, Inl e)"
    and "print_error services (exception_str services e) = None"
  shows "lambda_handler services ev =
           (calls, Inr \<lparr>statusCode = 500,
                         body = json_dumps (PStr (ascii ''Server error: '' @
                                  exception_str services e))\<rparr>)"
  using assms by (simp add: lambda_handler_def except_clause_def server_error_def)

lemma print_exception_leaves_handler:
  assumes "try_block services ev = (calls, Inl e)"
    and "print_error services (exception_str services e) = Some raised"
  shows "lambda_handler services ev = (calls, Inl raised)"
  using assms by (simp add: lambda_handler_def except_clause_def)

text \<open>
  What the handler returns is one of four responses: the two status 400 messages, the
  status 500 message, or the complete success object with three summary lines. When it
  returns nothing, an exception of the \<^verbatim>\<open>try\<close> block was caught and its \<^verbatim>\<open>print\<close> raised.
\<close>

lemma except_clause_cases:
  "except_clause services e = Inr (server_error services e) \<or>
   (\<exists>raised. print_error services (exception_str services e) = Some raised \<and>
      except_clause services e = Inl raised)"
  by (cases "print_error services (exception_str services e)") (simp_all add: except_clause_def)

lemma handler_results:
  "snd (lambda_handler services ev) = Inr no_file_data \<or>
   snd (lambda_handler services ev) = Inr no_text_found \<or>
   (\<exists>e. snd (lambda_handler services ev) = Inr (server_error services e)) \<or>
   (\<exists>t a b c. snd (lambda_handler services ev) = Inr (success t [a, b, c])) \<or>
   (\<exists>e raised. print_error services (exception_str services e) = Some raised \<and>
      snd (lambda_handler services ev) = Inl raised)"
proof (cases rule: handler_paths[where ev = ev and services = services])
  case (decode_raise x)
  from handler_decode_Raise[OF this, of services] except_clause_cases[of services x]
  show ?thesis by auto
next
  case decode_return
  from handler_decode_Return[OF this, of services] show ?thesis by auto
next
  case (detect_raise b x)
  from handler_detect_Raise[OF this] except_clause_cases[of services x]
  show ?thesis by auto
next
  case (text_raise b resp x)
  from handler_full_text_Raise[OF this] except_clause_cases[of services x]
  show ?thesis by auto
next
  case (no_text b resp)
  from handler_no_text[OF this] show ?thesis by auto
next
  case (invoke_raise b resp t x)
  from handler_invoke_Raise[OF this] except_clause_cases[of services x]
  show ?thesis by auto
next
  case (summary_raise b resp t payload x)
  from handler_summary_Raise[OF this] except_clause_cases[of services x]
  show ?thesis by auto
next
  case (succeed b resp t payload lines)
  from succeed(6) obtain x y z where "lines = [x, y, z]" by (rule summary_of_three)
  with handler_success[OF succeed]
  have "snd (lambda_handler services ev) = Inr (success t [x, y, z])" by simp
  then show ?thesis by blast
qed

section \<open>A sample request\<close>

definition quoted :: "str \<Rightarrow> str" where
  "quoted s = [34] @ s @ [34]"

definition sample_blocks :: "pyval list" where
  "sample_blocks =
     [PDict [(ascii ''BlockType'', PStr (ascii ''PAGE''))],
      PDict [(ascii ''BlockType'', PStr (ascii ''LINE'')), (ascii ''Text'', PStr (ascii ''Wages 100''))],
      PDict [(ascii ''BlockType'', PStr (ascii ''WORD'')), (ascii ''Text'', PStr (ascii ''Wages''))],
      PDict [(ascii ''BlockType'', PStr (ascii ''LINE'')), (ascii ''Text'', PStr (ascii ''Tax 20''))]]"

definition sample_textract_response :: pyval where
  "sample_textract_response = PDict [(ascii ''Blocks'', PList sample_blocks)]"

definition sample_payload :: str where
  "sample_payload = ascii ''{'' @ quoted (ascii ''content'') @ ascii '': [{'' @ quoted (ascii ''type'')
     @ ascii '': '' @ quoted (ascii ''text'') @ ascii '', '' @ quoted (ascii ''text'') @ ascii '': ''
     @ quoted (ascii '' Wages are 100.'' @ [92, 110, 92, 110] @ ascii ''Tax is 20. '') @ ascii ''}]}''"

definition sample_exception_str :: "exn \<Rightarrow> str" where
  "sample_exception_str e = (case e of ServiceException m \<Rightarrow> m | _ \<Rightarrow> ascii ''error'')"

definition sample_env :: env where
  "sample_env = \<lparr>detect_document_text = (\<lambda>b. Inr sample_textract_response),
                  invoke_model = (\<lambda>a. Inr sample_payload),
                  exception_str = sample_exception_str,
                  print_error = utf8_print\<rparr>"

definition sample_body :: str where
  "sample_body = ascii ''{'' @ quoted (ascii ''file_data'') @ ascii '': '' @ quoted (ascii ''aGk='') @ ascii ''}''"

definition sample_event :: event where
  "sample_event = \<lparr>event_body = Present sample_body, event_isBase64Encoded = Present False\<rparr>"

lemmas json_eval =
  json_loads_def ascii_def skip_ws_def is_json_ws_def is_digit_def starts_with_def quoted_def
  scan_escape_def unescape_def hex_digit_def match_number_def int_part_def frac_part_def
  exp_part_def int_of_digits_def INT_MAX_STR_DIGITS_def Let_def

lemmas py_eval =
  b64decode_def table_a2b_base64_def py_contains_def py_getitem_def py_get_def py_iter_def
  py_first_def py_join_nl_def

lemmas decode_eval =
  decode_input_def get_body_def is_base64_encoded_def load_event_data_def

lemma sample_body_loads:
  "json_loads sample_body = Inr (PDict [(ascii ''file_data'', PStr (ascii ''aGk=''))])"
  by (simp add: sample_body_def json_eval)

lemma sample_decode: "decode_input sample_event = Continue [104, 105]"
  by (simp add: decode_eval sample_event_def sample_body_loads)
     (simp add: sample_body_def py_eval ascii_def quoted_def)

lemma sample_full_text:
  "full_text_of sample_textract_response = Inr (ascii ''Wages 100'' @ [10] @ ascii ''Tax 20'')"
  by (simp add: full_text_of_def sample_textract_response_def sample_blocks_def py_eval ascii_def)

lemma sample_summary:
  "summary_of sample_payload = Inr [ascii ''Wages are 100.'', ascii ''Tax is 20.'', []]"
  by (simp add: summary_of_def summary_text_of_def sample_payload_def json_eval py_eval
      summary_lines_def strip_def isspace_def split_nl.simps)

lemma sample_run:
  "lambda_handler sample_env sample_event =
     ([DetectDocumentText [104, 105],
       InvokeModel (bedrock_request (ascii ''Wages 100'' @ [10] @ ascii ''Tax 20''))],
      Inr (success (ascii ''Wages 100'' @ [10] @ ascii ''Tax 20'')
        [ascii ''Wages are 100.'', ascii ''Tax is 20.'', []]))"
  by (rule handler_success[OF sample_decode, where resp = sample_textract_response
        and payload = sample_payload])
     (simp_all add: sample_env_def sample_full_text sample_summary)

text \<open>The sample environment prints the text of the exceptions of the library.\<close>

lemma sample_except_clause:
  "except_clause sample_env BinasciiError = Inr (server_error sample_env BinasciiError)"
  "except_clause sample_env JSONDecodeError = Inr (server_error sample_env JSONDecodeError)"
  "except_clause sample_env TypeError = Inr (server_error sample_env TypeError)"
  "except_clause sample_env IndexError = Inr (server_error sample_env IndexError)"
  by (simp_all add: except_clause_def sample_env_def sample_exception_str_def utf8_print_def
      ascii_def)

section \<open>The stages of the handler, case by case\<close>

subsection \<open>Input decoding\<close>

lemma json_loads_Nil: "json_loads [] = Inl JSONDecodeError"
  by (simp add: json_loads_def skip_ws_def)

lemma load_event_data_Present:
  "json_loads s = Inr v \<Longrightarrow> load_event_data (PStr s) = Inr v"
  using json_loads_Nil by (cases "s = []") (auto simp: load_event_data_def)

lemma decode_input_file_data:
  assumes "\<not> is_base64_encoded ev" "event_body ev = Present s"
    "json_loads s = Inr (PDict d)" "map_of d (ascii ''file_data'') = Some v"
  shows "decode_input ev = (case b64decode v of Inl e \<Rightarrow> Raise e | Inr b \<Rightarrow> Continue b)"
  using assms load_event_data_Present[OF assms(3)]
  by (simp add: decode_input_def get_body_def py_contains_def py_getitem_def)

lemma decode_input_no_file_data:
  assumes "\<not> is_base64_encoded ev" "event_body ev = Present s"
    "json_loads s = Inr (PDict d)" "map_of d (ascii ''file_data'') = None"
  shows "decode_input ev = Return no_file_data"
  using assms load_event_data_Present[OF assms(3)]
  by (simp add: decode_input_def get_body_def py_contains_def)

lemma decode_input_empty_body:
  assumes "\<not> is_base64_encoded ev"
    "event_body ev = Absent \<or> event_body ev = Null \<or> event_body ev = Present []"
  shows "decode_input ev = Return no_file_data"
  using assms
  by (auto simp: decode_input_def get_body_def load_event_data_def py_contains_def)

lemma decode_input_base64_body:
  assumes "is_base64_encoded ev" "event_body ev = Present s"
  shows "decode_input ev = (case b64decode (PStr s) of Inl e \<Rightarrow> Raise e | Inr b \<Rightarrow> Continue b)"
  using assms by (simp add: decode_input_def get_body_def)

lemma decode_input_bad_json:
  assumes "\<not> is_base64_encoded ev" "event_body ev = Present s" "s \<noteq> []"
    "json_loads s = Inl e"
  shows "decode_input ev = Raise e"
  using assms by (simp add: decode_input_def get_body_def load_event_data_def)

subsection \<open>The response of the model\<close>

lemma summary_of_missing_content:
  assumes "json_loads payload = Inr (PDict d)" "map_of d (ascii ''content'') = None"
  shows "summary_of payload = Inr [[], [], []]"
  using assms
  by (simp add: summary_of_def summary_text_of_def py_get_def py_first_def
      summary_lines_def strip_def split_nl.simps numeral_3_eq_3)

lemma summary_of_missing_text:
  assumes "json_loads payload = Inr (PDict d)"
    "map_of d (ascii ''content'') = Some (PList (PDict segment # segments))"
    "map_of segment (ascii ''text'') = None"
  shows "summary_of payload = Inr [[], [], []]"
  using assms
  by (simp add: summary_of_def summary_text_of_def py_get_def py_first_def
      summary_lines_def strip_def split_nl.simps numeral_3_eq_3)

lemma summary_of_empty_content:
  assumes "json_loads payload = Inr (PDict d)" "map_of d (ascii ''content'') = Some (PList [])"
  shows "summary_of payload = Inl IndexError"
  using assms
  by (simp add: summary_of_def summary_text_of_def py_get_def py_first_def)

subsection \<open>The extracted text as the specification words it\<close>

text \<open>
  Section 4.2: keep the blocks whose classification is \<^verbatim>\<open>LINE\<close>, in the order of the list,
  and join their text payloads with a newline.
\<close>

definition is_line_block :: "pyval \<Rightarrow> bool" where
  "is_line_block block =
     (case block of
        PDict d \<Rightarrow> map_of d (ascii ''BlockType'') = Some (PStr (ascii ''LINE''))
      | _ \<Rightarrow> False)"

definition block_text :: "pyval \<Rightarrow> str" where
  "block_text block =
     (case block of
        PDict d \<Rightarrow> (case map_of d (ascii ''Text'') of Some (PStr t) \<Rightarrow> t | _ \<Rightarrow> [])
      | _ \<Rightarrow> [])"

definition spec_full_text :: "pyval list \<Rightarrow> str" where
  "spec_full_text blocks = join_nl (map block_text (filter is_line_block blocks))"

text \<open>
  A block as the OCR service emits it: a dictionary, with a string under \<^verbatim>\<open>Text\<close> when it
  is a line block.
\<close>

definition well_formed_block :: "pyval \<Rightarrow> bool" where
  "well_formed_block block =
     (case block of
        PDict d \<Rightarrow>
          (if map_of d (ascii ''BlockType'') = Some (PStr (ascii ''LINE''))
           then (case map_of d (ascii ''Text'') of Some (PStr t) \<Rightarrow> True | _ \<Rightarrow> False)
           else True)
      | _ \<Rightarrow> False)"

lemma is_line_block_dict:
  "is_line_block (PDict d) = (map_of d (ascii ''BlockType'') = Some (PStr (ascii ''LINE'')))"
  by (simp add: is_line_block_def)

lemma block_text_dict:
  "block_text (PDict d) = (case map_of d (ascii ''Text'') of Some (PStr t) \<Rightarrow> t | _ \<Rightarrow> [])"
  by (simp add: block_text_def)

lemma text_lines_Cons_dict:
  "text_lines (PDict d # items) =
     (if map_of d (ascii ''BlockType'') = Some (PStr (ascii ''LINE'')) then
        (case map_of d (ascii ''Text'') of
           None \<Rightarrow> Inl KeyError
         | Some txt \<Rightarrow> (case text_lines items of Inl e \<Rightarrow> Inl e | Inr txts \<Rightarrow> Inr (txt # txts)))
      else text_lines items)"
  by (auto simp: py_get_def py_getitem_def split: option.splits)

lemma strs_of_Cons_Inr:
  "strs_of (x # xs) = Inr ss \<Longrightarrow> \<exists>s ss'. x = PStr s \<and> ss = s # ss' \<and> strs_of xs = Inr ss'"
  by (cases x) (auto split: sum.splits)

text \<open>Whenever the comprehension and the join go through, their result is the specified text.\<close>

lemma text_lines_spec:
  "text_lines blocks = Inr txts \<Longrightarrow> strs_of txts = Inr ss \<Longrightarrow>
   ss = map block_text (filter is_line_block blocks)"
proof (induction blocks arbitrary: txts ss)
  case Nil
  then show ?case by simp
next
  case (Cons item items)
  show ?case
  proof (cases item)
    case (PDict d)
    show ?thesis
    proof (cases "map_of d (ascii ''BlockType'') = Some (PStr (ascii ''LINE''))")
      case True
      with Cons.prems(1) PDict obtain x xs where
        t: "map_of d (ascii ''Text'') = Some x" and r: "text_lines items = Inr xs"
        and txts: "txts = x # xs"
        by (auto simp: text_lines_Cons_dict simp del: text_lines.simps(2) split: option.splits sum.splits)
      from Cons.prems(2) txts obtain s ss' where
        s: "x = PStr s" and ss: "ss = s # ss'" and r': "strs_of xs = Inr ss'"
        by (auto dest: strs_of_Cons_Inr)
      from Cons.IH[OF r r'] True t s ss PDict show ?thesis
        by (simp add: is_line_block_dict block_text_dict)
    next
      case False
      with Cons.prems(1) PDict have "text_lines items = Inr txts"
        by (simp add: text_lines_Cons_dict del: text_lines.simps(2))
      from Cons.IH[OF this Cons.prems(2)] False PDict show ?thesis
        by (simp add: is_line_block_dict)
    qed
  qed (use Cons.prems(1) in \<open>simp_all add: py_get_def\<close>)
qed

lemma strs_of_map_PStr: "strs_of (map PStr ss) = Inr ss"
  by (induction ss) simp_all

lemma text_lines_well_formed:
  "list_all well_formed_block blocks \<Longrightarrow>
   text_lines blocks = Inr (map PStr (map block_text (filter is_line_block blocks)))"
proof (induction blocks)
  case Nil
  then show ?case by simp
next
  case (Cons item items)
  then obtain d where d: "item = PDict d"
    by (cases item) (simp_all add: well_formed_block_def)
  from Cons have ih: "text_lines items = Inr (map PStr (map block_text (filter is_line_block items)))"
    by simp
  from Cons.prems d have w: "well_formed_block (PDict d)" by simp
  show ?case
  proof (cases "map_of d (ascii ''BlockType'') = Some (PStr (ascii ''LINE''))")
    case True
    with w obtain t where "map_of d (ascii ''Text'') = Some (PStr t)"
      by (auto simp: well_formed_block_def split: option.splits pyval.splits)
    with True ih d show ?thesis
      by (simp add: text_lines_Cons_dict is_line_block_dict block_text_dict del: text_lines.simps(2))
  next
    case False
    with ih d show ?thesis
      by (simp add: text_lines_Cons_dict is_line_block_dict del: text_lines.simps(2))
  qed
qed

lemma full_text_of_blocks:
  assumes "map_of resp (ascii ''Blocks'') = Some (PList blocks)"
  shows "full_text_of (PDict resp) =
    (case text_lines blocks of Inl e \<Rightarrow> Inl e | Inr lines \<Rightarrow> py_join_nl lines)"
  using assms by (simp add: full_text_of_def py_get_def py_iter_def)

lemma full_text_of_spec:
  assumes "map_of resp (ascii ''Blocks'') = Some (PList blocks)"
    and "full_text_of (PDict resp) = Inr t"
  shows "t = spec_full_text blocks"
proof -
  from assms obtain txts ss where "text_lines blocks = Inr txts" "strs_of txts = Inr ss"
    "t = join_nl ss"
    by (auto simp: full_text_of_blocks py_join_nl_def split: sum.splits)
  with text_lines_spec[of blocks txts ss] show ?thesis
    by (simp add: spec_full_text_def)
qed

lemma full_text_of_well_formed:
  assumes "map_of resp (ascii ''Blocks'') = Some (PList blocks)"
    and "list_all well_formed_block blocks"
  shows "full_text_of (PDict resp) = Inr (spec_full_text blocks)"
  using assms(1) text_lines_well_formed[OF assms(2)]
  by (simp add: full_text_of_blocks py_join_nl_def strs_of_map_PStr spec_full_text_def
      del: map_map)

subsection \<open>The request envelope\<close>

lemma scanstring_plain:
  assumes "\<forall>c \<in> set s. c \<noteq> 34 \<and> c \<noteq> 92 \<and> 31 < c"
  shows "scanstring (s @ 34 # r) acc = Inr (rev acc @ s, r)"
  using assms by (induction s arbitrary: acc) auto

lemma b64char_plain: "b64char v \<noteq> 34 \<and> b64char v \<noteq> 92 \<and> 31 < b64char v"
  by (auto simp: b64char_def Let_def)

lemma b64encode_plain: "\<forall>c \<in> set (b64encode X). c \<noteq> 34 \<and> c \<noteq> 92 \<and> 31 < c"
  by (induction X rule: b64encode.induct) (simp_all add: b64char_plain)

definition file_data_envelope :: "str \<Rightarrow> str" where
  "file_data_envelope encoded =
     ascii ''{'' @ quoted (ascii ''file_data'') @ ascii '': '' @ quoted encoded @ ascii ''}''"

lemma file_data_envelope_loads:
  assumes "\<forall>c \<in> set encoded. c \<noteq> 34 \<and> c \<noteq> 92 \<and> 31 < c"
  shows "json_loads (file_data_envelope encoded) = Inr (PDict [(ascii ''file_data'', PStr encoded)])"
  by (simp add: file_data_envelope_def json_eval scanstring_plain[OF assms])

lemma first_call_is_ocr:
  assumes c: "decode_input ev = Continue X"
  shows "\<exists>later. fst (lambda_handler services ev) = DetectDocumentText X # later"
proof (cases rule: handler_paths[where ev = ev and services = services])
  case (decode_raise e)
  with c show ?thesis by simp
next
  case decode_return
  with c show ?thesis by simp
next
  case (detect_raise b e)
  from handler_detect_Raise[OF this] detect_raise c show ?thesis by simp
next
  case (text_raise b resp e)
  from handler_full_text_Raise[OF this] text_raise c show ?thesis by simp
next
  case (no_text b resp)
  from handler_no_text[OF this] no_text c show ?thesis by simp
next
  case (invoke_raise b resp t e)
  from handler_invoke_Raise[OF this] invoke_raise c show ?thesis by simp
next
  case (summary_raise b resp t payload e)
  from handler_summary_Raise[OF this] summary_raise c show ?thesis by simp
next
  case (succeed b resp t payload lines)
  from handler_success[OF this] succeed c show ?thesis by simp
qed

section \<open>The claims of the specification\<close>

text \<open>
  C1. In every response with status 200 the body is the JSON text of an object whose
  \<^verbatim>\<open>summary\<close> field is a list of exactly three strings, whatever the services returned.
\<close>

theorem summary_has_three_strings:
  assumes "snd (lambda_handler services ev) = Inr r" and "statusCode r = 200"
  shows "\<exists>full_text a b c.
           body r =
             json_dumps (PDict [(ascii ''extracted_text'', PStr full_text),
                                (ascii ''summary'', PList [PStr a, PStr b, PStr c])])"
proof -
  from assms obtain t payload lines where
    s: "summary_of payload = Inr lines" and
    r: "r = success t lines"
    by (rule handler_200)
  from s obtain a b c where "lines = [a, b, c]" by (rule summary_of_three)
  with r show ?thesis by (simp add: success_def)
qed

theorem summary_has_three_strings_witness:
  "snd (lambda_handler sample_env sample_event) =
     Inr (success (ascii ''Wages 100'' @ [10] @ ascii ''Tax 20'')
       [ascii ''Wages are 100.'', ascii ''Tax is 20.'', []]) \<and>
   statusCode (success (ascii ''Wages 100'' @ [10] @ ascii ''Tax 20'')
       [ascii ''Wages are 100.'', ascii ''Tax is 20.'', []]) = 200 \<and>
   (\<exists>full_text a b c.
      body (success (ascii ''Wages 100'' @ [10] @ ascii ''Tax 20'')
          [ascii ''Wages are 100.'', ascii ''Tax is 20.'', []]) =
        json_dumps (PDict [(ascii ''extracted_text'', PStr full_text),
                           (ascii ''summary'', PList [PStr a, PStr b, PStr c])]))"
proof -
  let ?r = "success (ascii ''Wages 100'' @ [10] @ ascii ''Tax 20'')
       [ascii ''Wages are 100.'', ascii ''Tax is 20.'', []]"
  have s: "snd (lambda_handler sample_env sample_event) = Inr ?r"
    by (simp add: sample_run)
  have c: "statusCode ?r = 200"
    by simp
  from s c summary_has_three_strings[OF s c] show ?thesis by blast
qed

text \<open>
  C2. The summary the handler computes from a generated text is the normalisation of
  section 4.3: strip the text, split it on newlines, strip each line, drop the empty
  lines, keep the first three, pad with empty strings to three. The four cases of
  section 8 come out as stated.
\<close>

theorem summary_lines_is_spec_normalize:
  "summary_lines generated = spec_normalize generated \<and>
   summary_lines (ascii ''A'' @ [10] @ ascii ''B'' @ [10] @ ascii ''C'' @ [10] @ ascii ''D'') =
     [ascii ''A'', ascii ''B'', ascii ''C''] \<and>
   summary_lines (ascii ''A'' @ [10, 10] @ ascii ''B'') = [ascii ''A'', ascii ''B'', []] \<and>
   summary_lines [] = [[], [], []] \<and>
   summary_lines (ascii ''  A  '' @ [10] @ ascii '' B '') = [ascii ''A'', ascii ''B'', []]"
proof -
  have "summary_lines (ascii ''A'' @ [10] @ ascii ''B'' @ [10] @ ascii ''C'' @ [10] @ ascii ''D'') =
     [ascii ''A'', ascii ''B'', ascii ''C'']"
    by (simp add: summary_lines_def strip_def isspace_def split_nl.simps ascii_def)
  moreover have "summary_lines (ascii ''A'' @ [10, 10] @ ascii ''B'') = [ascii ''A'', ascii ''B'', []]"
    by (simp add: summary_lines_def strip_def isspace_def split_nl.simps ascii_def)
  moreover have "summary_lines [] = [[], [], []]"
    by (simp add: summary_lines_def strip_def split_nl.simps numeral_3_eq_3)
  moreover have "summary_lines (ascii ''  A  '' @ [10] @ ascii '' B '') = [ascii ''A'', ascii ''B'', []]"
    by (simp add: summary_lines_def strip_def isspace_def split_nl.simps ascii_def)
  ultimately show ?thesis
    using summary_lines_spec[of generated] by blast
qed

text \<open>
  Not every text outside the base64 alphabet is refused: \<^verbatim>\<open>base64.b64decode\<close> drops the
  characters that are not of the alphabet, so \<^verbatim>\<open>!!!!\<close> decodes to no bytes at all, and with
  the flag set the handler goes on to the OCR call with the empty image.
\<close>

lemma b64decode_drops_foreign_characters:
  "b64decode (PStr (ascii ''!!!!'')) = Inr []"
  "decode_input \<lparr>event_body = Present (ascii ''!!!!''), event_isBase64Encoded = Present True\<rparr>
     = Continue []"
proof -
  show b: "b64decode (PStr (ascii ''!!!!'')) = Inr []"
    by (simp add: py_eval ascii_def)
  show "decode_input \<lparr>event_body = Present (ascii ''!!!!''), event_isBase64Encoded = Present True\<rparr>
     = Continue []"
    by (simp add: decode_input_base64_body[where s = "ascii ''!!!!''"] is_base64_encoded_def b)
qed

text \<open>
  C3. The specification asks for status 400 on an undecodable payload. The handler has no
  \<^verbatim>\<open>MalformedInput\<close> error: a body that is not base64 raises \<^verbatim>\<open>binascii.Error\<close> inside
  the \<^verbatim>\<open>try\<close> block, and the \<^verbatim>\<open>except\<close> clause answers with status 500.
\<close>

theorem malformed_base64_is_500:
  "b64decode (PStr (ascii ''A'')) = Inl BinasciiError \<and>
   lambda_handler sample_env
     \<lparr>event_body = Present (ascii ''A''), event_isBase64Encoded = Present True\<rparr> =
     ([], Inr (server_error sample_env BinasciiError)) \<and>
   statusCode (server_error sample_env BinasciiError) = 500"
proof -
  have b: "b64decode (PStr (ascii ''A'')) = Inl BinasciiError"
    by (simp add: py_eval ascii_def)
  have "decode_input \<lparr>event_body = Present (ascii ''A''), event_isBase64Encoded = Present True\<rparr>
      = Raise BinasciiError"
    by (simp add: decode_input_base64_body[where s = "ascii ''A''"] is_base64_encoded_def b)
  from handler_decode_Raise[OF this] b show ?thesis by (simp add: sample_except_clause)
qed

text \<open>
  C3, amended. When the decoding of a payload that is present raises (the flag is set and
  \<^verbatim>\<open>base64.b64decode\<close> raises on the body; or the flag is not set and \<^verbatim>\<open>json.loads\<close> raises
  on the body, which is not empty, or the body is a JSON object and \<^verbatim>\<open>base64.b64decode\<close>
  raises on the value of its \<^verbatim>\<open>file_data\<close> field), and the \<^verbatim>\<open>print\<close> of the text of the
  exception does not raise, the handler calls no service and returns status 500 with the
  message \<^verbatim>\<open>Server error: \<close> followed by the text of the exception.
\<close>

theorem undecodable_payload_is_server_error:
  "(is_base64_encoded ev \<and> event_body ev = Present s \<and> b64decode (PStr s) = Inl e \<and>
    print_error services (exception_str services e) = None \<longrightarrow>
      lambda_handler services ev = ([], Inr (server_error services e))) \<and>
   (\<not> is_base64_encoded ev \<and> event_body ev = Present s \<and> s \<noteq> [] \<and> json_loads s = Inl e \<and>
    print_error services (exception_str services e) = None \<longrightarrow>
      lambda_handler services ev = ([], Inr (server_error services e))) \<and>
   (\<not> is_base64_encoded ev \<and> event_body ev = Present s \<and> json_loads s = Inr (PDict d) \<and>
    map_of d (ascii ''file_data'') = Some v \<and> b64decode v = Inl e \<and>
    print_error services (exception_str services e) = None \<longrightarrow>
      lambda_handler services ev = ([], Inr (server_error services e))) \<and>
   server_error services e =
     \<lparr>statusCode = 500,
      body = json_dumps (PStr (ascii ''Server error: '' @ exception_str services e))\<rparr>"
proof (intro conjI impI)
  assume a: "is_base64_encoded ev \<and> event_body ev = Present s \<and> b64decode (PStr s) = Inl e \<and>
    print_error services (exception_str services e) = None"
  then have "decode_input ev = Raise e"
    by (simp add: decode_input_base64_body[where s = s])
  from handler_decode_Raise[OF this] a
  show "lambda_handler services ev = ([], Inr (server_error services e))"
    by (simp add: except_clause_printed)
next
  assume a: "\<not> is_base64_encoded ev \<and> event_body ev = Present s \<and> s \<noteq> [] \<and> json_loads s = Inl e \<and>
    print_error services (exception_str services e) = None"
  then have "decode_input ev = Raise e"
    by (simp add: decode_input_bad_json[where s = s])
  from handler_decode_Raise[OF this] a
  show "lambda_handler services ev = ([], Inr (server_error services e))"
    by (simp add: except_clause_printed)
next
  assume a: "\<not> is_base64_encoded ev \<and> event_body ev = Present s \<and> json_loads s = Inr (PDict d) \<and>
    map_of d (ascii ''file_data'') = Some v \<and> b64decode v = Inl e \<and>
    print_error services (exception_str services e) = None"
  then have "decode_input ev = Raise e"
    by (simp add: decode_input_file_data[where s = s and d = d and v = v])
  from handler_decode_Raise[OF this] a
  show "lambda_handler services ev = ([], Inr (server_error services e))"
    by (simp add: except_clause_printed)
next
  show "server_error services e =
     \<lparr>statusCode = 500,
      body = json_dumps (PStr (ascii ''Server error: '' @ exception_str services e))\<rparr>"
    by (simp add: server_error_def)
qed

definition bad_file_data_body :: str where
  "bad_file_data_body =
     ascii ''{'' @ quoted (ascii ''file_data'') @ ascii '': '' @ quoted (ascii ''A'') @ ascii ''}''"

lemma bad_file_data_body_loads:
  "json_loads bad_file_data_body = Inr (PDict [(ascii ''file_data'', PStr (ascii ''A''))])"
  by (simp add: bad_file_data_body_def json_eval)

theorem undecodable_payload_is_server_error_witness:
  "b64decode (PStr (ascii ''A'')) = Inl BinasciiError \<and>
   print_error sample_env (exception_str sample_env BinasciiError) = None \<and>
   lambda_handler sample_env
     \<lparr>event_body = Present (ascii ''A''), event_isBase64Encoded = Present True\<rparr> =
     ([], Inr (server_error sample_env BinasciiError)) \<and>
   json_loads (ascii ''{'') = Inl JSONDecodeError \<and>
   print_error sample_env (exception_str sample_env JSONDecodeError) = None \<and>
   lambda_handler sample_env
     \<lparr>event_body = Present (ascii ''{''), event_isBase64Encoded = Present False\<rparr> =
     ([], Inr (server_error sample_env JSONDecodeError)) \<and>
   json_loads bad_file_data_body = Inr (PDict [(ascii ''file_data'', PStr (ascii ''A''))]) \<and>
   lambda_handler sample_env
     \<lparr>event_body = Present bad_file_data_body, event_isBase64Encoded = Absent\<rparr> =
     ([], Inr (server_error sample_env BinasciiError)) \<and>
   statusCode (server_error sample_env BinasciiError) = 500"
proof -
  have b: "b64decode (PStr (ascii ''A'')) = Inl BinasciiError"
    by (simp add: py_eval ascii_def)
  have j: "json_loads (ascii ''{'') = Inl JSONDecodeError"
    by (simp add: json_eval)
  have n: "ascii ''{'' \<noteq> []" by (simp add: ascii_def)
  have p1: "print_error sample_env (exception_str sample_env BinasciiError) = None"
    by (simp add: sample_env_def sample_exception_str_def utf8_print_def ascii_def)
  have p2: "print_error sample_env (exception_str sample_env JSONDecodeError) = None"
    by (simp add: sample_env_def sample_exception_str_def utf8_print_def ascii_def)
  note t1 = undecodable_payload_is_server_error[of
      "\<lparr>event_body = Present (ascii ''A''), event_isBase64Encoded = Present True\<rparr>"
      "ascii ''A''" BinasciiError sample_env]
  note t2 = undecodable_payload_is_server_error[of
      "\<lparr>event_body = Present (ascii ''{''), event_isBase64Encoded = Present False\<rparr>"
      "ascii ''{''" JSONDecodeError sample_env]
  note t3 = undecodable_payload_is_server_error[of
      "\<lparr>event_body = Present bad_file_data_body, event_isBase64Encoded = Absent\<rparr>"
      bad_file_data_body BinasciiError sample_env
      "[(ascii ''file_data'', PStr (ascii ''A''))]" "PStr (ascii ''A'')"]
  from t1 b p1 have r1: "lambda_handler sample_env
     \<lparr>event_body = Present (ascii ''A''), event_isBase64Encoded = Present True\<rparr> =
     ([], Inr (server_error sample_env BinasciiError))"
    by (simp add: is_base64_encoded_def)
  from t2 j n p2 have r2: "lambda_handler sample_env
     \<lparr>event_body = Present (ascii ''{''), event_isBase64Encoded = Present False\<rparr> =
     ([], Inr (server_error sample_env JSONDecodeError))"
    by (simp add: is_base64_encoded_def)
  from t3 b p1 bad_file_data_body_loads have r3: "lambda_handler sample_env
     \<lparr>event_body = Present bad_file_data_body, event_isBase64Encoded = Absent\<rparr> =
     ([], Inr (server_error sample_env BinasciiError))"
    by (simp add: is_base64_encoded_def)
  from b j p1 p2 r1 r2 r3 bad_file_data_body_loads show ?thesis by simp
qed

definition empty_content_payload :: str where
  "empty_content_payload = ascii ''{'' @ quoted (ascii ''content'') @ ascii '': []}''"

definition empty_content_env :: env where
  "empty_content_env = sample_env\<lparr>invoke_model := (\<lambda>a. Inr empty_content_payload)\<rparr>"

lemma empty_content_payload_loads:
  "json_loads empty_content_payload = Inr (PDict [(ascii ''content'', PList [])])"
  by (simp add: empty_content_payload_def json_eval)

text \<open>
  C4. The defaults of \<^verbatim>\<open>result_json.get("content", [{}])[0].get("text", "")\<close> give the empty
  text when the response has no \<^verbatim>\<open>content\<close> key or its first segment has no \<^verbatim>\<open>text\<close>
  key. A response whose \<^verbatim>\<open>content\<close> list is empty has no content segment either, but
  there \<^verbatim>\<open>[0]\<close> raises \<^verbatim>\<open>IndexError\<close> and the handler answers with status 500 instead of
  the success response with three empty summary lines.
\<close>

theorem empty_content_list_is_500:
  "json_loads empty_content_payload = Inr (PDict [(ascii ''content'', PList [])]) \<and>
   summary_of empty_content_payload = Inl IndexError \<and>
   snd (lambda_handler empty_content_env sample_event) =
     Inr (server_error empty_content_env IndexError) \<and>
   statusCode (server_error empty_content_env IndexError) = 500"
proof -
  have s: "summary_of empty_content_payload = Inl IndexError"
    by (rule summary_of_empty_content[OF empty_content_payload_loads]) (simp add: ascii_def)
  have p: "except_clause empty_content_env IndexError =
      Inr (server_error empty_content_env IndexError)"
    by (rule except_clause_printed)
       (simp add: empty_content_env_def sample_env_def sample_exception_str_def utf8_print_def
          ascii_def)
  have "lambda_handler empty_content_env sample_event =
     ([DetectDocumentText [104, 105],
       InvokeModel (bedrock_request (ascii ''Wages 100'' @ [10] @ ascii ''Tax 20''))],
      except_clause empty_content_env IndexError)"
    by (rule handler_summary_Raise[OF sample_decode, where resp = sample_textract_response
        and payload = empty_content_payload])
       (simp_all add: empty_content_env_def sample_env_def sample_full_text s)
  with s p empty_content_payload_loads show ?thesis by simp
qed

text \<open>
  C5. When the flag is not set and the body is a JSON object whose \<^verbatim>\<open>file_data\<close> field is
  the base64 encoding of the bytes \<open>X\<close>, the first call of the handler is the OCR call, and
  its argument is \<open>X\<close>. For every \<open>X\<close> there is such a body: the object with the one field.
\<close>

theorem file_data_round_trip:
  "(\<not> is_base64_encoded ev \<and> event_body ev = Present s \<and> json_loads s = Inr (PDict d) \<and>
    map_of d (ascii ''file_data'') = Some (PStr (b64encode X)) \<longrightarrow>
      decode_input ev = Continue X \<and>
      (\<exists>later. fst (lambda_handler services ev) = DetectDocumentText X # later)) \<and>
   json_loads (file_data_envelope (b64encode X)) =
     Inr (PDict [(ascii ''file_data'', PStr (b64encode X))])"
proof (intro conjI impI)
  assume a: "\<not> is_base64_encoded ev \<and> event_body ev = Present s \<and> json_loads s = Inr (PDict d) \<and>
    map_of d (ascii ''file_data'') = Some (PStr (b64encode X))"
  then have "decode_input ev = (case b64decode (PStr (b64encode X)) of
      Inl e \<Rightarrow> Raise e | Inr b \<Rightarrow> Continue b)"
    by (intro decode_input_file_data[where s = s and d = d]) simp_all
  then show c: "decode_input ev = Continue X"
    by (simp add: b64decode_b64encode)
  then show "\<exists>later. fst (lambda_handler services ev) = DetectDocumentText X # later"
    by (rule first_call_is_ocr)
next
  show "json_loads (file_data_envelope (b64encode X)) =
     Inr (PDict [(ascii ''file_data'', PStr (b64encode X))])"
    by (rule file_data_envelope_loads[OF b64encode_plain])
qed

theorem file_data_round_trip_witness:
  "\<not> is_base64_encoded sample_event \<and>
   event_body sample_event = Present (file_data_envelope (b64encode [104, 105])) \<and>
   json_loads (file_data_envelope (b64encode [104, 105])) =
     Inr (PDict [(ascii ''file_data'', PStr (b64encode [104, 105]))]) \<and>
   decode_input sample_event = Continue [104, 105] \<and>
   (\<exists>later. fst (lambda_handler sample_env sample_event) = DetectDocumentText [104, 105] # later)"
proof -
  have e: "b64encode [104, 105] = ascii ''aGk=''"
    by (simp add: b64char_def sextet0_def sextet1_def sextet2_def ascii_def Let_def)
  have f: "\<not> is_base64_encoded sample_event"
    by (simp add: is_base64_encoded_def sample_event_def)
  have b: "event_body sample_event = Present (file_data_envelope (b64encode [104, 105]))"
    unfolding e by (simp add: sample_event_def sample_body_def file_data_envelope_def)
  have m: "map_of [(ascii ''file_data'', PStr (b64encode [104, 105]))] (ascii ''file_data'') =
      Some (PStr (b64encode [104, 105]))"
    by simp
  note t = file_data_round_trip[of sample_event "file_data_envelope (b64encode [104, 105])"
      "[(ascii ''file_data'', PStr (b64encode [104, 105]))]" "[104, 105]" sample_env]
  from t have j: "json_loads (file_data_envelope (b64encode [104, 105])) =
     Inr (PDict [(ascii ''file_data'', PStr (b64encode [104, 105]))])"
    by blast
  from t f b j m show ?thesis by blast
qed

text \<open>
  C6. For a block list as the OCR service emits it, the text the handler extracts is the
  text of the line blocks, in the order of the list, joined by single newlines; and in
  every status 200 response the \<^verbatim>\<open>extracted_text\<close> field is exactly that text.
\<close>

theorem extracted_text_is_joined_line_blocks:
  "(map_of resp (ascii ''Blocks'') = Some (PList blocks) \<and> list_all well_formed_block blocks \<longrightarrow>
      full_text_of (PDict resp) = Inr (spec_full_text blocks)) \<and>
   (decode_input ev = Continue image_bytes \<and>
    detect_document_text services image_bytes = Inr (PDict resp) \<and>
    map_of resp (ascii ''Blocks'') = Some (PList blocks) \<and>
    snd (lambda_handler services ev) = Inr r \<and> statusCode r = 200 \<longrightarrow>
      (\<exists>a b c. body r =
         json_dumps (PDict [(ascii ''extracted_text'', PStr (spec_full_text blocks)),
                            (ascii ''summary'', PList [PStr a, PStr b, PStr c])])))"
proof (intro conjI impI)
  assume "map_of resp (ascii ''Blocks'') = Some (PList blocks) \<and> list_all well_formed_block blocks"
  then show "full_text_of (PDict resp) = Inr (spec_full_text blocks)"
    by (simp add: full_text_of_well_formed)
next
  assume a: "decode_input ev = Continue image_bytes \<and>
    detect_document_text services image_bytes = Inr (PDict resp) \<and>
    map_of resp (ascii ''Blocks'') = Some (PList blocks) \<and>
    snd (lambda_handler services ev) = Inr r \<and> statusCode r = 200"
  then have h1: "snd (lambda_handler services ev) = Inr r" and h2: "statusCode r = 200"
    by simp_all
  from h1 h2 obtain b resp' t payload lines where
    d: "decode_input ev = Continue b" and
    o: "detect_document_text services b = Inr resp'" and
    f: "full_text_of resp' = Inr t" and
    s: "summary_of payload = Inr lines" and
    r: "r = success t lines"
    by (rule handler_200)
  from a d o have "resp' = PDict resp" by simp
  with a f have t: "t = spec_full_text blocks"
    by (intro full_text_of_spec[of resp blocks t]) simp_all
  from s obtain x y z where "lines = [x, y, z]" by (rule summary_of_three)
  with r t show "\<exists>a b c. body r =
         json_dumps (PDict [(ascii ''extracted_text'', PStr (spec_full_text blocks)),
                            (ascii ''summary'', PList [PStr a, PStr b, PStr c])])"
    by (simp add: success_def)
qed

theorem extracted_text_is_joined_line_blocks_witness:
  "map_of [(ascii ''Blocks'', PList sample_blocks)] (ascii ''Blocks'') = Some (PList sample_blocks) \<and>
   list_all well_formed_block sample_blocks \<and>
   spec_full_text sample_blocks = ascii ''Wages 100'' @ [10] @ ascii ''Tax 20'' \<and>
   full_text_of sample_textract_response = Inr (spec_full_text sample_blocks) \<and>
   decode_input sample_event = Continue [104, 105] \<and>
   detect_document_text sample_env [104, 105] = Inr sample_textract_response \<and>
   snd (lambda_handler sample_env sample_event) =
     Inr (success (ascii ''Wages 100'' @ [10] @ ascii ''Tax 20'')
       [ascii ''Wages are 100.'', ascii ''Tax is 20.'', []]) \<and>
   statusCode (success (ascii ''Wages 100'' @ [10] @ ascii ''Tax 20'')
       [ascii ''Wages are 100.'', ascii ''Tax is 20.'', []]) = 200 \<and>
   (\<exists>a b c. body (success (ascii ''Wages 100'' @ [10] @ ascii ''Tax 20'')
         [ascii ''Wages are 100.'', ascii ''Tax is 20.'', []]) =
      json_dumps (PDict [(ascii ''extracted_text'', PStr (spec_full_text sample_blocks)),
                         (ascii ''summary'', PList [PStr a, PStr b, PStr c])]))"
proof -
  let ?r = "success (ascii ''Wages 100'' @ [10] @ ascii ''Tax 20'')
       [ascii ''Wages are 100.'', ascii ''Tax is 20.'', []]"
  have m: "map_of [(ascii ''Blocks'', PList sample_blocks)] (ascii ''Blocks'') =
      Some (PList sample_blocks)"
    by simp
  have w: "list_all well_formed_block sample_blocks"
    by (simp add: sample_blocks_def well_formed_block_def ascii_def)
  have v: "spec_full_text sample_blocks = ascii ''Wages 100'' @ [10] @ ascii ''Tax 20''"
    by (simp add: spec_full_text_def sample_blocks_def is_line_block_dict block_text_dict ascii_def)
  have o: "detect_document_text sample_env [104, 105] = Inr (PDict [(ascii ''Blocks'', PList sample_blocks)])"
    by (simp add: sample_env_def sample_textract_response_def)
  have s: "snd (lambda_handler sample_env sample_event) = Inr ?r"
    by (simp add: sample_run)
  have c: "statusCode ?r = 200"
    by simp
  note t = extracted_text_is_joined_line_blocks[of "[(ascii ''Blocks'', PList sample_blocks)]"
      sample_blocks sample_event "[104, 105]" sample_env ?r]
  from t m w have 1: "full_text_of sample_textract_response = Inr (spec_full_text sample_blocks)"
    unfolding sample_textract_response_def by blast
  from t sample_decode o m s c have 2: "\<exists>a b c. body ?r =
      json_dumps (PDict [(ascii ''extracted_text'', PStr (spec_full_text sample_blocks)),
                         (ascii ''summary'', PList [PStr a, PStr b, PStr c])])"
    by blast
  from o have o': "detect_document_text sample_env [104, 105] = Inr sample_textract_response"
    by (simp add: sample_textract_response_def)
  from m w v 1 sample_decode o' s c 2 show ?thesis by blast
qed

definition blank_page_blocks :: "pyval list" where
  "blank_page_blocks = [PDict [(ascii ''BlockType'', PStr (ascii ''PAGE''))]]"

definition blank_page_env :: env where
  "blank_page_env =
     sample_env\<lparr>detect_document_text :=
       (\<lambda>b. Inr (PDict [(ascii ''Blocks'', PList blank_page_blocks)]))\<rparr>"

text \<open>
  C7. When the OCR response has no line blocks, so that the joined text is empty, the
  handler returns status 400 with the message \<^verbatim>\<open>OCR found no text\<close>, and the OCR call is
  the only call it has made: the model service is not called.
\<close>

theorem no_line_blocks_is_400:
  "(decode_input ev = Continue image_bytes \<and>
    detect_document_text services image_bytes = Inr textract_response \<and>
    full_text_of textract_response = Inr [] \<longrightarrow>
      lambda_handler services ev =
        ([DetectDocumentText image_bytes],
         Inr \<lparr>statusCode = 400, body = json_dumps (PStr (ascii ''OCR found no text''))\<rparr>)) \<and>
   (map_of resp (ascii ''Blocks'') = Some (PList blocks) \<and> list_all well_formed_block blocks \<and>
    filter is_line_block blocks = [] \<longrightarrow>
      full_text_of (PDict resp) = Inr []) \<and>
   (map_of resp (ascii ''Blocks'') = None \<longrightarrow> full_text_of (PDict resp) = Inr [])"
proof (intro conjI impI)
  assume "decode_input ev = Continue image_bytes \<and>
    detect_document_text services image_bytes = Inr textract_response \<and>
    full_text_of textract_response = Inr []"
  then have "lambda_handler services ev = ([DetectDocumentText image_bytes], Inr no_text_found)"
    by (simp add: handler_no_text[where resp = textract_response])
  then show "lambda_handler services ev =
        ([DetectDocumentText image_bytes],
         Inr \<lparr>statusCode = 400, body = json_dumps (PStr (ascii ''OCR found no text''))\<rparr>)"
    by (simp add: no_text_found_def)
next
  assume "map_of resp (ascii ''Blocks'') = Some (PList blocks) \<and> list_all well_formed_block blocks \<and>
    filter is_line_block blocks = []"
  then show "full_text_of (PDict resp) = Inr []"
    by (simp add: full_text_of_well_formed spec_full_text_def)
next
  assume "map_of resp (ascii ''Blocks'') = None"
  then show "full_text_of (PDict resp) = Inr []"
    by (simp add: full_text_of_def py_get_def py_iter_def py_join_nl_def)
qed

theorem no_line_blocks_is_400_witness:
  "decode_input sample_event = Continue [104, 105] \<and>
   detect_document_text blank_page_env [104, 105] =
     Inr (PDict [(ascii ''Blocks'', PList blank_page_blocks)]) \<and>
   list_all well_formed_block blank_page_blocks \<and>
   filter is_line_block blank_page_blocks = [] \<and>
   full_text_of (PDict [(ascii ''Blocks'', PList blank_page_blocks)]) = Inr [] \<and>
   full_text_of (PDict []) = Inr [] \<and>
   lambda_handler blank_page_env sample_event =
     ([DetectDocumentText [104, 105]],
      Inr \<lparr>statusCode = 400, body = json_dumps (PStr (ascii ''OCR found no text''))\<rparr>)"
proof -
  have o: "detect_document_text blank_page_env [104, 105] =
     Inr (PDict [(ascii ''Blocks'', PList blank_page_blocks)])"
    by (simp add: blank_page_env_def)
  have m: "map_of [(ascii ''Blocks'', PList blank_page_blocks)] (ascii ''Blocks'') =
      Some (PList blank_page_blocks)"
    by simp
  have w: "list_all well_formed_block blank_page_blocks"
    by (simp add: blank_page_blocks_def well_formed_block_def ascii_def)
  have n: "filter is_line_block blank_page_blocks = []"
    by (simp add: blank_page_blocks_def is_line_block_dict ascii_def)
  have e: "map_of ([] :: (str \<times> pyval) list) (ascii ''Blocks'') = None"
    by simp
  note t = no_line_blocks_is_400[of sample_event "[104, 105]" blank_page_env
      "PDict [(ascii ''Blocks'', PList blank_page_blocks)]"
      "[(ascii ''Blocks'', PList blank_page_blocks)]" blank_page_blocks]
  from t m w n have f: "full_text_of (PDict [(ascii ''Blocks'', PList blank_page_blocks)]) = Inr []"
    by blast
  from t sample_decode o f have r: "lambda_handler blank_page_env sample_event =
     ([DetectDocumentText [104, 105]],
      Inr \<lparr>statusCode = 400, body = json_dumps (PStr (ascii ''OCR found no text''))\<rparr>)"
    by blast
  from no_line_blocks_is_400[of _ _ _ _ "[]"] e have f0: "full_text_of (PDict []) = Inr []"
    by blast
  from sample_decode o w n f f0 r show ?thesis by blast
qed

text \<open>
  C8. The specification speaks of every body that parses as JSON. The body \<^verbatim>\<open>null\<close> parses, to
  \<^verbatim>\<open>None\<close>, and has no \<^verbatim>\<open>file_data\<close> field; there \<^verbatim>\<open>"file_data" in event_data\<close> raises
  \<^verbatim>\<open>TypeError\<close> and the handler answers with status 500, not 400.
\<close>

theorem null_body_is_500:
  "json_loads (ascii ''null'') = Inr PNone \<and>
   lambda_handler sample_env
     \<lparr>event_body = Present (ascii ''null''), event_isBase64Encoded = Present False\<rparr> =
     ([], Inr (server_error sample_env TypeError)) \<and>
   statusCode (server_error sample_env TypeError) = 500"
proof -
  have j: "json_loads (ascii ''null'') = Inr PNone"
    by (simp add: json_eval)
  have "decode_input \<lparr>event_body = Present (ascii ''null''), event_isBase64Encoded = Present False\<rparr>
      = Raise TypeError"
    by (simp add: decode_eval j py_contains_def) (simp add: ascii_def)
  from handler_decode_Raise[OF this] j show ?thesis by (simp add: sample_except_clause)
qed

text \<open>
  C8, amended. When the flag is not set and the body parses as a JSON object that has no
  \<^verbatim>\<open>file_data\<close> key, the handler returns status 400 with the message
  \<^verbatim>\<open>No file data provided\<close> and has called neither service.
\<close>

theorem object_without_file_data_is_400:
  assumes "\<not> is_base64_encoded ev"
    and "event_body ev = Present s"
    and "json_loads s = Inr (PDict d)"
    and "map_of d (ascii ''file_data'') = None"
  shows "lambda_handler services ev =
           ([], Inr \<lparr>statusCode = 400,
                      body = json_dumps (PStr (ascii ''No file data provided''))\<rparr>)"
  using handler_decode_Return[OF decode_input_no_file_data[OF assms]]
  by (simp add: no_file_data_def)

theorem object_without_file_data_is_400_witness:
  "\<not> is_base64_encoded \<lparr>event_body = Present (ascii ''{}''), event_isBase64Encoded = Present False\<rparr> \<and>
   json_loads (ascii ''{}'') = Inr (PDict []) \<and>
   map_of ([] :: (str \<times> pyval) list) (ascii ''file_data'') = None \<and>
   lambda_handler sample_env
     \<lparr>event_body = Present (ascii ''{}''), event_isBase64Encoded = Present False\<rparr> =
     ([], Inr \<lparr>statusCode = 400, body = json_dumps (PStr (ascii ''No file data provided''))\<rparr>)"
proof -
  have f: "\<not> is_base64_encoded
      \<lparr>event_body = Present (ascii ''{}''), event_isBase64Encoded = Present False\<rparr>"
    by (simp add: is_base64_encoded_def)
  have b: "event_body \<lparr>event_body = Present (ascii ''{}''), event_isBase64Encoded = Present False\<rparr>
      = Present (ascii ''{}'')"
    by simp
  have j: "json_loads (ascii ''{}'') = Inr (PDict [])"
    by (simp add: json_eval)
  have m: "map_of ([] :: (str \<times> pyval) list) (ascii ''file_data'') = None"
    by simp
  from object_without_file_data_is_400[OF f b j m, of sample_env] f j m show ?thesis by blast
qed

definition ocr_down_env :: env where
  "ocr_down_env =
     sample_env\<lparr>detect_document_text :=
       (\<lambda>b. Inl (ServiceException (ascii ''Connection reset'')))\<rparr>"

definition surrogate_message_env :: env where
  "surrogate_message_env =
     sample_env\<lparr>detect_document_text := (\<lambda>b. Inl (ServiceException [55296]))\<rparr>"

text \<open>
  C9. The \<^verbatim>\<open>except\<close> clause catches every exception of the \<^verbatim>\<open>try\<close> block, but it prints
  the text of the exception before it returns, and the \<^verbatim>\<open>print\<close> is not guarded. When the
  OCR call fails with the message \<^verbatim>\<open>Connection reset\<close>, the handler returns status 500 with
  \<^verbatim>\<open>Server error: Connection reset\<close>. When it fails with a message that holds the lone
  surrogate U+D800, which the UTF-8 output stream cannot encode, the \<^verbatim>\<open>print\<close> raises
  \<^verbatim>\<open>UnicodeEncodeError\<close>: the handler returns no response, the exception reaches the caller.
\<close>

theorem print_failure_reaches_caller:
  "lambda_handler ocr_down_env sample_event =
     ([DetectDocumentText [104, 105]],
      Inr \<lparr>statusCode = 500,
            body = json_dumps (PStr (ascii ''Server error: '' @ ascii ''Connection reset''))\<rparr>) \<and>
   try_block surrogate_message_env sample_event =
     ([DetectDocumentText [104, 105]], Inl (ServiceException [55296])) \<and>
   exception_str surrogate_message_env (ServiceException [55296]) = [55296] \<and>
   print_error surrogate_message_env [55296] = Some UnicodeEncodeError \<and>
   lambda_handler surrogate_message_env sample_event =
     ([DetectDocumentText [104, 105]], Inl UnicodeEncodeError)"
proof -
  let ?e1 = "ServiceException (ascii ''Connection reset'')"
  let ?e2 = "ServiceException [55296]"
  have o1: "detect_document_text ocr_down_env [104, 105] = Inl ?e1"
    by (simp add: ocr_down_env_def)
  have t1: "try_block ocr_down_env sample_event = ([DetectDocumentText [104, 105]], Inl ?e1)"
    by (simp add: try_block_def sample_decode o1)
  have s1: "exception_str ocr_down_env ?e1 = ascii ''Connection reset''"
    by (simp add: ocr_down_env_def sample_env_def sample_exception_str_def)
  have p1: "print_error ocr_down_env (exception_str ocr_down_env ?e1) = None"
    unfolding s1 by (simp add: ocr_down_env_def sample_env_def utf8_print_def ascii_def)
  have r1: "lambda_handler ocr_down_env sample_event =
     ([DetectDocumentText [104, 105]],
      Inr \<lparr>statusCode = 500,
            body = json_dumps (PStr (ascii ''Server error: '' @ ascii ''Connection reset''))\<rparr>)"
    using caught_exception_is_server_error[OF t1 p1] by (simp add: s1)
  have o2: "detect_document_text surrogate_message_env [104, 105] = Inl ?e2"
    by (simp add: surrogate_message_env_def)
  have t2: "try_block surrogate_message_env sample_event =
      ([DetectDocumentText [104, 105]], Inl ?e2)"
    by (simp add: try_block_def sample_decode o2)
  have s2: "exception_str surrogate_message_env ?e2 = [55296]"
    by (simp add: surrogate_message_env_def sample_env_def sample_exception_str_def)
  have p2: "print_error surrogate_message_env [55296] = Some UnicodeEncodeError"
    by (simp add: surrogate_message_env_def sample_env_def utf8_print_def)
  have r2: "lambda_handler surrogate_message_env sample_event =
     ([DetectDocumentText [104, 105]], Inl UnicodeEncodeError)"
    using t2 s2 p2 by (simp add: lambda_handler_def except_clause_def)
  from r1 t2 s2 p2 r2 show ?thesis by simp
qed

text \<open>
  C10. In a status 200 response no summary line contains a newline, and a line that
  is not empty neither starts nor ends with white space. A request whose flag is
  not set and whose body is absent, \<^verbatim>\<open>None\<close> or empty is answered with the status 400
  response for missing input; the body is not handed to the JSON parser.
\<close>

theorem summary_lines_stripped_and_empty_body_is_400:
  "(snd (lambda_handler services ev) = Inr r \<and> statusCode r = 200 \<longrightarrow>
      (\<exists>full_text lines.
         body r =
           json_dumps (PDict [(ascii ''extracted_text'', PStr full_text),
                              (ascii ''summary'', PList (map PStr lines))]) \<and>
         (\<forall>l \<in> set lines.
            10 \<notin> set l \<and> (l = [] \<or> (\<not> isspace (hd l) \<and> \<not> isspace (last l)))))) \<and>
   (\<not> is_base64_encoded ev \<and>
    (event_body ev = Absent \<or> event_body ev = Null \<or> event_body ev = Present []) \<longrightarrow>
      lambda_handler services ev =
        ([], Inr \<lparr>statusCode = 400,
                   body = json_dumps (PStr (ascii ''No file data provided''))\<rparr>))"
proof (intro conjI impI)
  assume "snd (lambda_handler services ev) = Inr r \<and> statusCode r = 200"
  then have h1: "snd (lambda_handler services ev) = Inr r" and h2: "statusCode r = 200"
    by simp_all
  from h1 h2 obtain t payload lines where
    s: "summary_of payload = Inr lines" and
    r: "r = success t lines"
    by (rule handler_200)
  from s obtain generated where "lines = summary_lines generated"
    by (auto simp: summary_of_def split: sum.splits pyval.splits)
  then have "\<forall>l \<in> set lines.
      10 \<notin> set l \<and> (l = [] \<or> (\<not> isspace (hd l) \<and> \<not> isspace (last l)))"
    using summary_lines_elem by blast
  with r show "\<exists>full_text lines.
         body r =
           json_dumps (PDict [(ascii ''extracted_text'', PStr full_text),
                              (ascii ''summary'', PList (map PStr lines))]) \<and>
         (\<forall>l \<in> set lines.
            10 \<notin> set l \<and> (l = [] \<or> (\<not> isspace (hd l) \<and> \<not> isspace (last l))))"
    unfolding success_def by (intro exI[of _ t] exI[of _ lines]) simp
next
  assume "\<not> is_base64_encoded ev \<and>
    (event_body ev = Absent \<or> event_body ev = Null \<or> event_body ev = Present [])"
  then have "decode_input ev = Return no_file_data"
    by (intro decode_input_empty_body) simp_all
  from handler_decode_Return[OF this] show "lambda_handler services ev =
        ([], Inr \<lparr>statusCode = 400,
                   body = json_dumps (PStr (ascii ''No file data provided''))\<rparr>)"
    by (simp add: no_file_data_def)
qed

theorem summary_lines_stripped_and_empty_body_is_400_witness:
  "snd (lambda_handler sample_env sample_event) =
     Inr (success (ascii ''Wages 100'' @ [10] @ ascii ''Tax 20'')
       [ascii ''Wages are 100.'', ascii ''Tax is 20.'', []]) \<and>
   statusCode (success (ascii ''Wages 100'' @ [10] @ ascii ''Tax 20'')
       [ascii ''Wages are 100.'', ascii ''Tax is 20.'', []]) = 200 \<and>
   (\<exists>full_text lines.
      body (success (ascii ''Wages 100'' @ [10] @ ascii ''Tax 20'')
          [ascii ''Wages are 100.'', ascii ''Tax is 20.'', []]) =
        json_dumps (PDict [(ascii ''extracted_text'', PStr full_text),
                           (ascii ''summary'', PList (map PStr lines))]) \<and>
      lines \<noteq> []) \<and>
   \<not> is_base64_encoded \<lparr>event_body = Absent, event_isBase64Encoded = Present False\<rparr> \<and>
   lambda_handler sample_env \<lparr>event_body = Absent, event_isBase64Encoded = Present False\<rparr> =
     ([], Inr \<lparr>statusCode = 400, body = json_dumps (PStr (ascii ''No file data provided''))\<rparr>) \<and>
   lambda_handler sample_env \<lparr>event_body = Present [], event_isBase64Encoded = Absent\<rparr> =
     ([], Inr \<lparr>statusCode = 400, body = json_dumps (PStr (ascii ''No file data provided''))\<rparr>)"
proof -
  let ?r = "success (ascii ''Wages 100'' @ [10] @ ascii ''Tax 20'')
       [ascii ''Wages are 100.'', ascii ''Tax is 20.'', []]"
  have s: "snd (lambda_handler sample_env sample_event) = Inr ?r"
    by (simp add: sample_run)
  have c: "statusCode ?r = 200"
    by simp
  from summary_lines_stripped_and_empty_body_is_400[of sample_env sample_event ?r] s c
  obtain full_text lines where
    b: "body ?r =
        json_dumps (PDict [(ascii ''extracted_text'', PStr full_text),
                           (ascii ''summary'', PList (map PStr lines))])"
    by blast
  have "lines \<noteq> []"
    using b by (auto simp: success_def)
  with b have 1: "\<exists>full_text lines.
      body ?r =
        json_dumps (PDict [(ascii ''extracted_text'', PStr full_text),
                           (ascii ''summary'', PList (map PStr lines))]) \<and>
      lines \<noteq> []"
    by blast
  have f1: "\<not> is_base64_encoded \<lparr>event_body = Absent, event_isBase64Encoded = Present False\<rparr>"
    by (simp add: is_base64_encoded_def)
  have f2: "\<not> is_base64_encoded \<lparr>event_body = Present [], event_isBase64Encoded = Absent\<rparr>"
    by (simp add: is_base64_encoded_def)
  from summary_lines_stripped_and_empty_body_is_400[of sample_env
      "\<lparr>event_body = Absent, event_isBase64Encoded = Present False\<rparr>"] f1
  have 2: "lambda_handler sample_env \<lparr>event_body = Absent, event_isBase64Encoded = Present False\<rparr> =
     ([], Inr \<lparr>statusCode = 400, body = json_dumps (PStr (ascii ''No file data provided''))\<rparr>)"
    by simp
  from summary_lines_stripped_and_empty_body_is_400[of sample_env
      "\<lparr>event_body = Present [], event_isBase64Encoded = Absent\<rparr>"] f2
  have 3: "lambda_handler sample_env \<lparr>event_body = Present [], event_isBase64Encoded = Absent\<rparr> =
     ([], Inr \<lparr>statusCode = 400, body = json_dumps (PStr (ascii ''No file data provided''))\<rparr>)"
    by simp
  from s c 1 f1 2 3 show ?thesis by blast
qed

end
